theory Spec2Isabelle
  imports Main "HOL-Library.Sublist"
begin

section \<open>JavaScript values as the page receives them\<close>

text \<open>
  The response body of the agent endpoint and the content of the browser store are
  untyped JSON. A JSON value is modelled as a tree; an object keeps its members in
  textual order. Numbers are restricted to integers.
\<close>

datatype json =
    JNull
  | JBool bool
  | JNumber int
  | JString string
  | JArray "json list"
  | JObject "(string \<times> json) list"

text \<open>
  JavaScript truthiness, as used by \<open>&&\<close>, \<open>||\<close> and \<open>if\<close>: \<open>null\<close>, \<open>false\<close>,
  \<open>0\<close> and the empty string are falsy, every array and object is truthy.
  \<open>undefined\<close> (a missing property) is \<open>None\<close> and falsy.
\<close>

fun truthy :: "json \<Rightarrow> bool" where
  "truthy JNull = False"
| "truthy (JBool b) = b"
| "truthy (JNumber n) = (n \<noteq> 0)"
| "truthy (JString s) = (s \<noteq> [])"
| "truthy (JArray xs) = True"
| "truthy (JObject kvs) = True"

definition truthy_opt :: "json option \<Rightarrow> bool" where
  "truthy_opt v = (case v of None \<Rightarrow> False | Some x \<Rightarrow> truthy x)"

text \<open>
  Property read \<open>v.k\<close> for one of the names the page reads (\<open>success\<close>, \<open>response\<close>,
  \<open>raw_response\<close>, \<open>result\<close>, \<open>text\<close>) on a value that is not \<open>null\<close>: an object yields its
  member (the last one, if the text repeated the key), every other kind of value has
  no such property and yields \<open>undefined\<close>.
\<close>

fun get_prop :: "json \<Rightarrow> string \<Rightarrow> json option" where
  "get_prop (JObject kvs) k = map_of (rev kvs) k"
| "get_prop _ k = None"

text \<open>Optional chaining \<open>v?.k\<close>: \<open>undefined\<close> when \<open>v\<close> is \<open>undefined\<close> or \<open>null\<close>.\<close>

fun opt_prop :: "json option \<Rightarrow> string \<Rightarrow> json option" where
  "opt_prop None k = None"
| "opt_prop (Some JNull) k = None"
| "opt_prop (Some v) k = get_prop v k"

text \<open>\<open>a || b\<close> where \<open>b\<close> is a definite value: \<open>a\<close> when truthy, otherwise \<open>b\<close>.\<close>

definition or_else :: "json option \<Rightarrow> json \<Rightarrow> json" where
  "or_else a b = (case a of None \<Rightarrow> b | Some v \<Rightarrow> if truthy v then v else b)"

datatype error = TypeError | SyntaxError | NetworkError | ShapeError

section \<open>Response extraction in handleSendMessage\<close>

definition processing_error_text :: string where
  "processing_error_text = ''I encountered an error processing your request. Please try again.''"

definition no_response_text :: string where
  "no_response_text = ''No response generated''"

definition apology_text :: string where
  "apology_text = ''Sorry, I encountered an error. Please try again.''"

text \<open>\<open>typeof data.response === 'string' ? data.response : null\<close>\<close>

definition string_or_null :: "json option \<Rightarrow> json" where
  "string_or_null r = (case r of Some (JString s) \<Rightarrow> JString s | _ \<Rightarrow> JNull)"

text \<open>
  Lines 236 to 250: the value assigned to \<open>assistantContent\<close> for a parsed body \<open>data\<close>.
  Reading \<open>data.success\<close> on \<open>null\<close> throws a TypeError. The initial value of the
  variable stays when neither branch assigns, so the \<open>else if\<close> branch is
  \<open>data.raw_response\<close> when truthy and the initial text otherwise.
\<close>

definition assistantContent :: "json \<Rightarrow> error + json" where
  "assistantContent data =
     (if data = JNull then Inl TypeError
      else
        let response = get_prop data ''response'' in
        if truthy_opt (get_prop data ''success'') \<and> truthy_opt response then
          Inr (or_else (opt_prop response ''result'')
              (or_else (opt_prop response ''response'')
              (or_else (opt_prop response ''text'')
              (or_else (Some (string_or_null response))
              (or_else (get_prop data ''raw_response'')
              (JString no_response_text))))))
        else Inr (or_else (get_prop data ''raw_response'') (JString processing_error_text)))"

section \<open>Strings, numbers and dates of the runtime\<close>

text \<open>
  A string is a list of code units; the model carries the units below 256.
  \<open>Number.prototype.toString\<close> on a non-negative integer is its decimal numeral.
\<close>

definition digit_char :: "nat \<Rightarrow> char" where
  "digit_char d = ''0123456789'' ! d"

fun toString :: "nat \<Rightarrow> string" where
  "toString n = (if n < 10 then [digit_char n] else toString (n div 10) @ [digit_char (n mod 10)])"

declare toString.simps [simp del]

text \<open>
  \<open>String.prototype.trim\<close> removes white space and line terminators at both ends:
  tab, line feed, vertical tab, form feed, carriage return, space and no-break space
  among the units below 256.
\<close>

definition is_space :: "char \<Rightarrow> bool" where
  "is_space c = (c \<in> set [CHR 0x09, CHR 0x0A, CHR 0x0B, CHR 0x0C, CHR 0x0D, CHR 0x20, CHR 0xA0])"

definition trim :: "string \<Rightarrow> string" where
  "trim s = rev (dropWhile is_space (rev (dropWhile is_space s)))"

text \<open>\<open>s.padStart(n, c)\<close> with a one-unit filler.\<close>

definition padStart :: "nat \<Rightarrow> char \<Rightarrow> string \<Rightarrow> string" where
  "padStart n c s = replicate (n - length s) c @ s"

text \<open>
  \<open>new Blob([s]).size\<close>: the length of the UTF-8 encoding, one byte for a unit below
  128 and two bytes for a unit from 128 to 255.
\<close>

definition blob_size :: "string \<Rightarrow> nat" where
  "blob_size s = sum_list (map (\<lambda>c. if (of_char c :: nat) < 128 then 1 else 2) s)"

text \<open>
  One reading of the clock. \<open>now\<close> is \<open>Date.now()\<close>; the other fields are what the
  methods of \<open>new Date()\<close> return at that instant in the browser's zone and locale.
  A \<open>Date.now()\<close> and a \<open>new Date()\<close> in adjacent statements read the same instant.
\<close>

record Date =
  now :: nat
  getHours :: nat
  getMinutes :: nat
  toLocaleString :: string
  toISOString :: string

definition formatTimestamp :: "Date \<Rightarrow> string" where
  "formatTimestamp date =
     (let hours = padStart 2 CHR ''0'' (toString (getHours date));
          minutes = padStart 2 CHR ''0'' (toString (getMinutes date))
      in hours @ '':'' @ minutes)"

section \<open>JSON text: JSON.stringify and JSON.parse\<close>

text \<open>\<open>Array.prototype.join\<close> on strings.\<close>

fun join :: "string \<Rightarrow> string list \<Rightarrow> string" where
  "join sep [] = []"
| "join sep [x] = x"
| "join sep (x # y # ys) = x @ sep @ join sep (y # ys)"

definition hex_char :: "nat \<Rightarrow> char" where
  "hex_char d = ''0123456789abcdef'' ! d"

text \<open>
  \<open>QuoteJSONString\<close>: the quotation mark and the reverse solidus are escaped with a
  reverse solidus, the control characters below 32 with their short escape or with
  \<open>\u00XX\<close> in lower-case hexadecimal; every other unit is copied.
\<close>

definition escape :: "char \<Rightarrow> string" where
  "escape c =
     (if c = CHR 0x22 then [CHR 0x5C, CHR 0x22]
      else if c = CHR 0x5C then [CHR 0x5C, CHR 0x5C]
      else if c = CHR 0x08 then [CHR 0x5C, CHR ''b'']
      else if c = CHR 0x0C then [CHR 0x5C, CHR ''f'']
      else if c = CHR 0x0A then [CHR 0x5C, CHR ''n'']
      else if c = CHR 0x0D then [CHR 0x5C, CHR ''r'']
      else if c = CHR 0x09 then [CHR 0x5C, CHR ''t'']
      else if (of_char c :: nat) < 32 then
        [CHR 0x5C, CHR ''u'', CHR ''0'', CHR ''0'',
         hex_char ((of_char c :: nat) div 16), hex_char ((of_char c :: nat) mod 16)]
      else [c])"

definition quote :: "string \<Rightarrow> string" where
  "quote s = CHR 0x22 # concat (map escape s) @ [CHR 0x22]"

text \<open>\<open>JSON.stringify\<close> without indentation: no white space between tokens.\<close>

fun stringify :: "json \<Rightarrow> string" where
  "stringify JNull = ''null''"
| "stringify (JBool b) = (if b then ''true'' else ''false'')"
| "stringify (JNumber n) = (if n < 0 then CHR ''-'' # toString (nat (- n)) else toString (nat n))"
| "stringify (JString s) = quote s"
| "stringify (JArray xs) = ''['' @ join '','' (map stringify xs) @ '']''"
| "stringify (JObject kvs) =
     ''{'' @ join '','' (map (\<lambda>kv. quote (fst kv) @ '':'' @ stringify (snd kv)) kvs) @ ''}''"

text \<open>
  \<open>JSON.parse\<close> on the text of the store, as a recursive-descent parser. It reads the
  texts that \<open>stringify\<close> writes, with white space between the tokens: integer numerals
  and strings of units below 256. \<open>None\<close> is the thrown SyntaxError, and also the answer
  to a numeral with a fraction or an exponent and to an escape of a unit from 256 on,
  which are outside the values carried here.
\<close>

definition is_json_ws :: "char \<Rightarrow> bool" where
  "is_json_ws c = (c \<in> set [CHR 0x20, CHR 0x09, CHR 0x0A, CHR 0x0D])"

definition skip_ws :: "string \<Rightarrow> string" where
  "skip_ws s = dropWhile is_json_ws s"

definition digit_of :: "char \<Rightarrow> nat option" where
  "digit_of c =
     map_of [(CHR ''0'', 0), (CHR ''1'', 1), (CHR ''2'', 2), (CHR ''3'', 3), (CHR ''4'', 4),
             (CHR ''5'', 5), (CHR ''6'', 6), (CHR ''7'', 7), (CHR ''8'', 8), (CHR ''9'', 9)] c"

definition hex_of :: "char \<Rightarrow> nat option" where
  "hex_of c =
     (case digit_of c of
        Some d \<Rightarrow> Some d
      | None \<Rightarrow>
          map_of [(CHR ''a'', 10), (CHR ''b'', 11), (CHR ''c'', 12), (CHR ''d'', 13),
                  (CHR ''e'', 14), (CHR ''f'', 15), (CHR ''A'', 10), (CHR ''B'', 11),
                  (CHR ''C'', 12), (CHR ''D'', 13), (CHR ''E'', 14), (CHR ''F'', 15)] c)"

fun parse_nat :: "nat \<Rightarrow> string \<Rightarrow> nat \<times> string" where
  "parse_nat acc [] = (acc, [])"
| "parse_nat acc (c # r) =
     (case digit_of c of Some d \<Rightarrow> parse_nat (10 * acc + d) r | None \<Rightarrow> (acc, c # r))"

text \<open>An integer numeral without sign: \<open>0\<close>, or a non-zero digit followed by digits.\<close>

definition parse_number :: "string \<Rightarrow> (nat \<times> string) option" where
  "parse_number s =
     (case s of
        [] \<Rightarrow> None
      | c # r \<Rightarrow>
          if digit_of c = None then None
          else if c = CHR ''0'' then Some (0, r)
          else Some (parse_nat 0 s))"

definition unescape :: "char \<Rightarrow> char option" where
  "unescape e =
     map_of [(CHR 0x22, CHR 0x22), (CHR 0x5C, CHR 0x5C), (CHR ''/'', CHR ''/''),
             (CHR ''b'', CHR 0x08), (CHR ''f'', CHR 0x0C), (CHR ''n'', CHR 0x0A),
             (CHR ''r'', CHR 0x0D), (CHR ''t'', CHR 0x09)] e"

text \<open>The unit of \<open>\uXXXX\<close>; a unit of 256 or more is outside the model.\<close>

definition unicode_escape :: "char \<Rightarrow> char \<Rightarrow> char \<Rightarrow> char \<Rightarrow> char option" where
  "unicode_escape h1 h2 h3 h4 =
     (case (hex_of h1, hex_of h2, hex_of h3, hex_of h4) of
        (Some a, Some b, Some c, Some d) \<Rightarrow>
          if a = 0 \<and> b = 0 then Some (char_of (16 * c + d)) else None
      | _ \<Rightarrow> None)"

text \<open>The characters of a string literal after its opening quotation mark.\<close>

fun parse_chars :: "string \<Rightarrow> (string \<times> string) option" where
  "parse_chars [] = None"
| "parse_chars (c # r) =
     (if c = CHR 0x22 then Some ([], r)
      else if c = CHR 0x5C then
        (case r of
           [] \<Rightarrow> None
         | e # r1 \<Rightarrow>
             if e = CHR ''u'' then
               (case r1 of
                  h1 # h2 # h3 # h4 # r2 \<Rightarrow>
                    (case unicode_escape h1 h2 h3 h4 of
                       None \<Rightarrow> None
                     | Some ch \<Rightarrow>
                         (case parse_chars r2 of
                            None \<Rightarrow> None
                          | Some (str, rest) \<Rightarrow> Some (ch # str, rest)))
                | _ \<Rightarrow> None)
             else
               (case unescape e of
                  None \<Rightarrow> None
                | Some ch \<Rightarrow>
                    (case parse_chars r1 of
                       None \<Rightarrow> None
                     | Some (str, rest) \<Rightarrow> Some (ch # str, rest))))
      else if (of_char c :: nat) < 32 then None
      else
        (case parse_chars r of
           None \<Rightarrow> None
         | Some (str, rest) \<Rightarrow> Some (c # str, rest)))"

definition expect :: "char \<Rightarrow> string \<Rightarrow> string option" where
  "expect c s = (case skip_ws s of [] \<Rightarrow> None | x # r \<Rightarrow> if x = c then Some r else None)"

text \<open>A value that is not an array or an object, from its first character on.\<close>

definition parse_scalar :: "char \<Rightarrow> string \<Rightarrow> (json \<times> string) option" where
  "parse_scalar c r =
     (if c = CHR ''n'' then (if take 3 r = ''ull'' then Some (JNull, drop 3 r) else None)
      else if c = CHR ''t'' then (if take 3 r = ''rue'' then Some (JBool True, drop 3 r) else None)
      else if c = CHR ''f'' then (if take 4 r = ''alse'' then Some (JBool False, drop 4 r) else None)
      else if c = CHR 0x22 then
        (case parse_chars r of None \<Rightarrow> None | Some (str, rest) \<Rightarrow> Some (JString str, rest))
      else if c = CHR ''-'' then
        (case parse_number r of None \<Rightarrow> None | Some (k, rest) \<Rightarrow> Some (JNumber (- int k), rest))
      else
        (case parse_number (c # r) of None \<Rightarrow> None | Some (k, rest) \<Rightarrow> Some (JNumber (int k), rest)))"

text \<open>
  The first argument bounds the depth of the descent; \<open>JSON_parse\<close> starts it with the
  length of the text, which no descent on that text exceeds.
  \<open>parse_elems\<close> reads the elements of a non-empty array up to its closing bracket,
  \<open>parse_members\<close> the members of a non-empty object up to its closing brace.
\<close>

fun parse_value :: "nat \<Rightarrow> string \<Rightarrow> (json \<times> string) option"
  and parse_elems :: "nat \<Rightarrow> string \<Rightarrow> (json list \<times> string) option"
  and parse_members :: "nat \<Rightarrow> string \<Rightarrow> ((string \<times> json) list \<times> string) option"
where
  "parse_value 0 s = None"
| "parse_value (Suc n) s =
     (case skip_ws s of
        [] \<Rightarrow> None
      | c # r \<Rightarrow>
          if c = CHR ''['' then
            (case expect CHR '']'' r of
               Some rest \<Rightarrow> Some (JArray [], rest)
             | None \<Rightarrow>
                 (case parse_elems n r of None \<Rightarrow> None | Some (vs, rest) \<Rightarrow> Some (JArray vs, rest)))
          else if c = CHR ''{'' then
            (case expect CHR ''}'' r of
               Some rest \<Rightarrow> Some (JObject [], rest)
             | None \<Rightarrow>
                 (case parse_members n r of None \<Rightarrow> None | Some (kvs, rest) \<Rightarrow> Some (JObject kvs, rest)))
          else parse_scalar c r)"
| "parse_elems 0 s = None"
| "parse_elems (Suc n) s =
     (case parse_value n s of
        None \<Rightarrow> None
      | Some (v, r) \<Rightarrow>
          (case expect CHR '']'' r of
             Some rest \<Rightarrow> Some ([v], rest)
           | None \<Rightarrow>
               (case expect CHR '','' r of
                  None \<Rightarrow> None
                | Some r1 \<Rightarrow>
                    (case parse_elems n r1 of
                       None \<Rightarrow> None
                     | Some (vs, rest) \<Rightarrow> Some (v # vs, rest)))))"
| "parse_members 0 s = None"
| "parse_members (Suc n) s =
     (case expect CHR 0x22 s of
        None \<Rightarrow> None
      | Some r0 \<Rightarrow>
          (case parse_chars r0 of
             None \<Rightarrow> None
           | Some (k, r1) \<Rightarrow>
               (case expect CHR '':'' r1 of
                  None \<Rightarrow> None
                | Some r2 \<Rightarrow>
                    (case parse_value n r2 of
                       None \<Rightarrow> None
                     | Some (v, r3) \<Rightarrow>
                         (case expect CHR ''}'' r3 of
                            Some rest \<Rightarrow> Some ([(k, v)], rest)
                          | None \<Rightarrow>
                              (case expect CHR '','' r3 of
                                 None \<Rightarrow> None
                               | Some r4 \<Rightarrow>
                                   (case parse_members n r4 of
                                      None \<Rightarrow> None
                                    | Some (kvs, rest) \<Rightarrow> Some ((k, v) # kvs, rest))))))))"

declare parse_value.simps [simp del] parse_elems.simps [simp del] parse_members.simps [simp del]

definition JSON_parse :: "string \<Rightarrow> json option" where
  "JSON_parse s =
     (case parse_value (length s) s of
        None \<Rightarrow> None
      | Some (v, rest) \<Rightarrow> if skip_ws rest = [] then Some v else None)"

text \<open>
  Two notions for the parser's results: a unit put in front of the characters read,
  and a remaining text that does not continue a numeral.
\<close>

definition cons_chars :: "char \<Rightarrow> (string \<times> string) option \<Rightarrow> (string \<times> string) option" where
  "cons_chars c r = (case r of None \<Rightarrow> None | Some (str, rest) \<Rightarrow> Some (c # str, rest))"

definition no_digit_ahead :: "string \<Rightarrow> bool" where
  "no_digit_ahead rest = (case rest of [] \<Rightarrow> True | c # _ \<Rightarrow> digit_of c = None)"

section \<open>Data model\<close>

datatype role = User | Assistant

text \<open>
  \<open>content\<close> is declared a string; the assistant reply stores whatever value the
  extraction selects from the untyped body, so the field holds a JSON value.
  A user's text \<open>s\<close> is \<open>JString s\<close>.
\<close>

record Message =
  m_id :: string
  m_content :: json
  m_role :: role
  m_timestamp :: string

record Conversation =
  c_id :: string
  c_title :: string
  c_messages :: "Message list"
  c_createdAt :: string

record KnowledgeDocument =
  d_id :: string
  d_name :: string
  d_content :: string
  d_uploadedAt :: string
  d_size :: nat

text \<open>The state variables of \<open>HomePage\<close> that the handlers read or write.\<close>

record state =
  conversations :: "Conversation list"
  currentConversationId :: "string option"
  messages :: "Message list"
  input :: string
  loading :: bool
  knowledgeDocuments :: "KnowledgeDocument list"
  showUploadDialog :: bool
  uploadName :: string
  uploadContent :: string

definition initial_state :: state where
  "initial_state =
     \<lparr>conversations = [], currentConversationId = None, messages = [], input = [],
      loading = False, knowledgeDocuments = [], showUploadDialog = False,
      uploadName = [], uploadContent = []\<rparr>"

section \<open>Handlers\<close>

definition greeting :: Message where
  "greeting = \<lparr>m_id = ''1'', m_content = JString ''Hi! How can I help you today?'',
               m_role = Assistant, m_timestamp = []\<rparr>"

definition createNewConversation :: "Date \<Rightarrow> state \<Rightarrow> state" where
  "createNewConversation date st =
     (let newConvId = toString (now date);
          newConversation =
            \<lparr>c_id = newConvId, c_title = ''New Conversation'',
             c_messages = [greeting\<lparr>m_timestamp := toLocaleString date\<rparr>],
             c_createdAt = toISOString date\<rparr>
      in st\<lparr>conversations := newConversation # conversations st,
            currentConversationId := Some newConvId,
            messages := c_messages newConversation,
            input := []\<rparr>)"

definition switchConversation :: "string \<Rightarrow> state \<Rightarrow> state" where
  "switchConversation convId st =
     (case find (\<lambda>c. c_id c = convId) (conversations st) of
        Some conversation \<Rightarrow>
          st\<lparr>currentConversationId := Some convId, messages := c_messages conversation\<rparr>
      | None \<Rightarrow> st)"

definition newDoc :: "string \<Rightarrow> string \<Rightarrow> Date \<Rightarrow> KnowledgeDocument" where
  "newDoc name content date =
     \<lparr>d_id = toString (now date), d_name = name, d_content = content,
      d_uploadedAt = toISOString date, d_size = blob_size content\<rparr>"

definition handleAddDocument :: "Date \<Rightarrow> state \<Rightarrow> state" where
  "handleAddDocument date st =
     (if trim (uploadName st) = [] \<or> trim (uploadContent st) = [] then st
      else
        st\<lparr>knowledgeDocuments :=
              newDoc (uploadName st) (uploadContent st) date # knowledgeDocuments st,
            uploadName := [], uploadContent := [], showUploadDialog := False\<rparr>)"

text \<open>
  The operation \<open>addDocument(name, content)\<close> of the document store is the upload form
  filled with the two texts and submitted.
\<close>

definition addDocument :: "string \<Rightarrow> string \<Rightarrow> Date \<Rightarrow> state \<Rightarrow> state" where
  "addDocument name content date st =
     handleAddDocument date (st\<lparr>uploadName := name, uploadContent := content\<rparr>)"

fun addDocuments :: "(string \<times> string \<times> Date) list \<Rightarrow> state \<Rightarrow> state" where
  "addDocuments [] st = st"
| "addDocuments ((name, content, date) # calls) st =
     addDocuments calls (addDocument name content date st)"

definition valid_call :: "string \<times> string \<times> Date \<Rightarrow> bool" where
  "valid_call call = (case call of (name, content, date) \<Rightarrow> trim name \<noteq> [] \<and> trim content \<noteq> [])"

definition document_of_call :: "string \<times> string \<times> Date \<Rightarrow> KnowledgeDocument" where
  "document_of_call call = (case call of (name, content, date) \<Rightarrow> newDoc name content date)"

definition deleteDocument :: "string \<Rightarrow> state \<Rightarrow> state" where
  "deleteDocument docId st =
     st\<lparr>knowledgeDocuments := filter (\<lambda>doc. d_id doc \<noteq> docId) (knowledgeDocuments st)\<rparr>"

text \<open>
  The title rule of lines 199 to 205. \<open>findIndex\<close> returns \<open>None\<close> for -1. The assignment
  to \<open>title\<close> writes the conversation object itself, which the copied array and the
  \<open>conversations\<close> array of the closure share, so the later \<open>conversations.map\<close> reads the
  new title as well.
\<close>

fun findIndex :: "('a \<Rightarrow> bool) \<Rightarrow> 'a list \<Rightarrow> nat option" where
  "findIndex P [] = None"
| "findIndex P (x # xs) = (if P x then Some 0 else map_option Suc (findIndex P xs))"

definition updateTitle :: "string \<Rightarrow> string \<Rightarrow> Conversation list \<Rightarrow> Conversation list" where
  "updateTitle cid text convs =
     (case findIndex (\<lambda>c. c_id c = cid) convs of
        None \<Rightarrow> convs
      | Some conversationIndex \<Rightarrow>
          if length (c_messages (convs ! conversationIndex)) = 1 then
            convs[conversationIndex := (convs ! conversationIndex)\<lparr>c_title := take 50 text\<rparr>]
          else convs)"

text \<open>The request of lines 213 to 230.\<close>

record request =
  message :: string
  agent_id :: string
  user_id :: string
  session_id :: string

definition knowledge_header :: string where
  "knowledge_header = [CHR 0x0A, CHR 0x0A] @ ''Relevant Knowledge Base:'' @ [CHR 0x0A]"

definition document_delimiter :: string where
  "document_delimiter = [CHR 0x0A] @ ''---'' @ [CHR 0x0A]"

definition document_block :: "KnowledgeDocument \<Rightarrow> string" where
  "document_block doc = ''Document: '' @ d_name doc @ [CHR 0x0A] @ d_content doc"

definition knowledgeContext :: "KnowledgeDocument list \<Rightarrow> string" where
  "knowledgeContext docs =
     (if length docs > 0 then knowledge_header @ join document_delimiter (map document_block docs)
      else [])"

definition build_request :: "string \<Rightarrow> string \<Rightarrow> KnowledgeDocument list \<Rightarrow> request" where
  "build_request text cid docs =
     \<lparr>message = text @ knowledgeContext docs,
      agent_id = ''693bfaa59188cfbc911c685e'',
      user_id = ''user-chat-'' @ cid,
      session_id = ''session-'' @ cid\<rparr>"

text \<open>
  What the endpoint does with a request is outside the page, and so is the parse of
  the body: the promise of \<open>fetch\<close> rejects; or it resolves and \<open>response.json()\<close>
  rejects, as it does on a body that is not JSON; or \<open>response.json()\<close> resolves with
  the value that the runtime parsed from the body.
\<close>

datatype fetch_outcome = Rejected | Malformed | Parsed json

text \<open>The \<open>try\<close> block from the \<open>await\<close> to the assignment of \<open>assistantContent\<close>.\<close>

definition try_reply :: "fetch_outcome \<Rightarrow> error + json" where
  "try_reply outcome =
     (case outcome of
        Rejected \<Rightarrow> Inl NetworkError
      | Malformed \<Rightarrow> Inl SyntaxError
      | Parsed data \<Rightarrow> assistantContent data)"

text \<open>
  The guard of line 182: \<open>!currentConversationId\<close> holds for \<open>null\<close> and for the empty
  string.
\<close>

definition send_blocked :: "state \<Rightarrow> bool" where
  "send_blocked st =
     (trim (input st) = [] \<or> loading st \<or>
      (case currentConversationId st of None \<Rightarrow> True | Some cid \<Rightarrow> cid = []))"

text \<open>
  \<open>handleSendMessage\<close> is an async function: it runs from the submit to the \<open>await\<close> of
  line 222, and its continuation runs when the promise settles. Other handlers can run
  in between; the sidebar stays enabled while the request is pending. The
  continuation works on the values that the closure captured at the submit.
\<close>

record pending_send =
  ps_currentConversationId :: string
  ps_updatedMessages :: "Message list"
  ps_conversations :: "Conversation list"
  ps_request :: request

text \<open>
  Lines 181 to 231, up to the call of \<open>fetch\<close>: the new state, and the closure and
  request of the pending send, or \<open>None\<close> when the guard returns. \<open>date\<close> is the clock at
  the submit. The conversations of the closure are those of the state after the title
  rule, which writes the shared conversation object.
\<close>

definition submitMessage :: "Date \<Rightarrow> state \<Rightarrow> state \<times> pending_send option" where
  "submitMessage date st =
     (if send_blocked st then (st, None)
      else
        let cid = the (currentConversationId st);
            userMessage =
              \<lparr>m_id = toString (now date), m_content = JString (input st), m_role = User,
               m_timestamp = formatTimestamp date\<rparr>;
            updatedMessages = messages st @ [userMessage];
            convs = updateTitle cid (input st) (conversations st)
        in (st\<lparr>messages := updatedMessages, input := [], loading := True, conversations := convs\<rparr>,
            Some \<lparr>ps_currentConversationId = cid, ps_updatedMessages = updatedMessages,
                  ps_conversations = convs,
                  ps_request = build_request (input st) cid (knowledgeDocuments st)\<rparr>))"

text \<open>
  Lines 233 to 284, the continuation: \<open>date2\<close> is the clock when the promise settles,
  \<open>outcome\<close> how it settles, \<open>st\<close> the state at that moment. The thread and the
  conversations are set from the closure; the other state variables stay as they are.
\<close>

definition settleMessage :: "Date \<Rightarrow> fetch_outcome \<Rightarrow> pending_send \<Rightarrow> state \<Rightarrow> state" where
  "settleMessage date2 outcome p st =
     (let cid = ps_currentConversationId p in
      case try_reply outcome of
        Inr content \<Rightarrow>
          let assistantMessage =
                \<lparr>m_id = toString (now date2 + 1), m_content = content, m_role = Assistant,
                 m_timestamp = formatTimestamp date2\<rparr>;
              finalMessages = ps_updatedMessages p @ [assistantMessage]
          in st\<lparr>messages := finalMessages, loading := False,
                conversations :=
                  map (\<lambda>conv. if c_id conv = cid then conv\<lparr>c_messages := finalMessages\<rparr> else conv)
                    (ps_conversations p)\<rparr>
      | Inl e \<Rightarrow>
          let errorMessage =
                \<lparr>m_id = toString (now date2 + 1), m_content = JString apology_text,
                 m_role = Assistant, m_timestamp = formatTimestamp date2\<rparr>;
              finalMessages = ps_updatedMessages p @ [errorMessage]
          in st\<lparr>messages := finalMessages, loading := False,
                conversations :=
                  map (\<lambda>conv. if c_id conv = cid then conv\<lparr>c_messages := finalMessages\<rparr> else conv)
                    (ps_conversations p)\<rparr>)"

text \<open>
  A send during whose \<open>await\<close> no other handler runs: \<open>fetch\<close> is the endpoint's answer
  to the request.
\<close>

definition handleSendMessage ::
  "Date \<Rightarrow> Date \<Rightarrow> (request \<Rightarrow> fetch_outcome) \<Rightarrow> state \<Rightarrow> state" where
  "handleSendMessage date date2 fetch st =
     (case submitMessage date st of
        (st1, None) \<Rightarrow> st1
      | (st1, Some p) \<Rightarrow> settleMessage date2 (fetch (ps_request p)) p st1)"

section \<open>The browser store and the effects\<close>

text \<open>
  The serialised form of the collections: the members of each object in the order of
  the object literal that built it.
\<close>

definition role_name :: "role \<Rightarrow> string" where
  "role_name r = (case r of User \<Rightarrow> ''user'' | Assistant \<Rightarrow> ''assistant'')"

definition Message_json :: "Message \<Rightarrow> json" where
  "Message_json m =
     JObject [(''id'', JString (m_id m)), (''content'', m_content m),
              (''role'', JString (role_name (m_role m))),
              (''timestamp'', JString (m_timestamp m))]"

definition Conversation_json :: "Conversation \<Rightarrow> json" where
  "Conversation_json c =
     JObject [(''id'', JString (c_id c)), (''title'', JString (c_title c)),
              (''messages'', JArray (map Message_json (c_messages c))),
              (''createdAt'', JString (c_createdAt c))]"

definition KnowledgeDocument_json :: "KnowledgeDocument \<Rightarrow> json" where
  "KnowledgeDocument_json d =
     JObject [(''id'', JString (d_id d)), (''name'', JString (d_name d)),
              (''content'', JString (d_content d)),
              (''uploadedAt'', JString (d_uploadedAt d)),
              (''size'', JNumber (int (d_size d)))]"

text \<open>
  The page installs the parsed value as its state without a check. The typed state
  of the model reads it back member by member; a value of another shape is outside
  the model (\<open>None\<close>).
\<close>

definition string_of :: "json option \<Rightarrow> string option" where
  "string_of v = (case v of Some (JString s) \<Rightarrow> Some s | _ \<Rightarrow> None)"

definition role_of :: "json option \<Rightarrow> role option" where
  "role_of v =
     (case string_of v of
        None \<Rightarrow> None
      | Some s \<Rightarrow> if s = ''user'' then Some User
                  else if s = ''assistant'' then Some Assistant else None)"

definition nat_of :: "json option \<Rightarrow> nat option" where
  "nat_of v = (case v of Some (JNumber n) \<Rightarrow> if 0 \<le> n then Some (nat n) else None | _ \<Rightarrow> None)"

definition Message_of :: "json \<Rightarrow> Message option" where
  "Message_of j =
     (case (string_of (get_prop j ''id''), get_prop j ''content'', role_of (get_prop j ''role''),
            string_of (get_prop j ''timestamp'')) of
        (Some i, Some c, Some r, Some t) \<Rightarrow>
          Some \<lparr>m_id = i, m_content = c, m_role = r, m_timestamp = t\<rparr>
      | _ \<Rightarrow> None)"

definition Messages_of :: "json option \<Rightarrow> Message list option" where
  "Messages_of v = (case v of Some (JArray ms) \<Rightarrow> those (map Message_of ms) | _ \<Rightarrow> None)"

definition Conversation_of :: "json \<Rightarrow> Conversation option" where
  "Conversation_of j =
     (case (string_of (get_prop j ''id''), string_of (get_prop j ''title''),
            Messages_of (get_prop j ''messages''), string_of (get_prop j ''createdAt'')) of
        (Some i, Some t, Some ms, Some c) \<Rightarrow>
          Some \<lparr>c_id = i, c_title = t, c_messages = ms, c_createdAt = c\<rparr>
      | _ \<Rightarrow> None)"

definition KnowledgeDocument_of :: "json \<Rightarrow> KnowledgeDocument option" where
  "KnowledgeDocument_of j =
     (case (string_of (get_prop j ''id''), string_of (get_prop j ''name''),
            string_of (get_prop j ''content''), string_of (get_prop j ''uploadedAt''),
            nat_of (get_prop j ''size'')) of
        (Some i, Some n, Some c, Some u, Some z) \<Rightarrow>
          Some \<lparr>d_id = i, d_name = n, d_content = c, d_uploadedAt = u, d_size = z\<rparr>
      | _ \<Rightarrow> None)"

text \<open>\<open>JSON.stringify(conversations)\<close> and \<open>JSON.parse(saved)\<close> read as a typed collection.\<close>

definition serialize_conversations :: "Conversation list \<Rightarrow> string" where
  "serialize_conversations convs = stringify (JArray (map Conversation_json convs))"

definition deserialize_conversations :: "string \<Rightarrow> error + Conversation list" where
  "deserialize_conversations saved =
     (case JSON_parse saved of
        None \<Rightarrow> Inl SyntaxError
      | Some (JArray cs) \<Rightarrow>
          (case those (map Conversation_of cs) of None \<Rightarrow> Inl ShapeError | Some convs \<Rightarrow> Inr convs)
      | Some _ \<Rightarrow> Inl ShapeError)"

definition serialize_documents :: "KnowledgeDocument list \<Rightarrow> string" where
  "serialize_documents docs = stringify (JArray (map KnowledgeDocument_json docs))"

definition deserialize_documents :: "string \<Rightarrow> error + KnowledgeDocument list" where
  "deserialize_documents saved =
     (case JSON_parse saved of
        None \<Rightarrow> Inl SyntaxError
      | Some (JArray ds) \<Rightarrow>
          (case those (map KnowledgeDocument_of ds) of None \<Rightarrow> Inl ShapeError | Some docs \<Rightarrow> Inr docs)
      | Some _ \<Rightarrow> Inl ShapeError)"

text \<open>\<open>localStorage\<close>: \<open>getItem\<close> is application, \<open>setItem\<close> is update.\<close>

type_synonym storage = "string \<rightharpoonup> string"

text \<open>The two save effects, lines 78 to 89.\<close>

definition saveConversations :: "state \<Rightarrow> storage \<Rightarrow> storage" where
  "saveConversations st ls =
     (if length (conversations st) > 0
      then ls(''conversations'' \<mapsto> serialize_conversations (conversations st))
      else ls)"

definition saveKnowledgeDocuments :: "state \<Rightarrow> storage \<Rightarrow> storage" where
  "saveKnowledgeDocuments st ls =
     (if length (knowledgeDocuments st) > 0
      then ls(''knowledgeDocuments'' \<mapsto> serialize_documents (knowledgeDocuments st))
      else ls)"

text \<open>
  After a handler the page renders again and runs the save effect of each collection
  that was set. An effect of a collection that was not set does not run; if it
  did, it would write the text the store already holds, so both are run here. A
  render that throws, as React does on a message whose content is an object, ends the
  page before its effects; the states that \<open>step\<close> gives after such a reply are states
  that the page does not come to.
\<close>

definition saveEffects :: "state \<Rightarrow> storage \<Rightarrow> storage" where
  "saveEffects st ls = saveKnowledgeDocuments st (saveConversations st ls)"

text \<open>
  The load effect, lines 49 to 65. \<open>if (saved)\<close> skips an absent key and an empty text.
\<close>

definition loadConversations :: "storage \<Rightarrow> state \<Rightarrow> error + state" where
  "loadConversations ls st =
     (case ls ''conversations'' of
        None \<Rightarrow> Inr st
      | Some saved \<Rightarrow>
          if saved = [] then Inr st
          else
            (case deserialize_conversations saved of
               Inl e \<Rightarrow> Inl e
             | Inr parsed \<Rightarrow>
                 (case parsed of
                    [] \<Rightarrow> Inr (st\<lparr>conversations := parsed\<rparr>)
                  | first # _ \<Rightarrow>
                      Inr (st\<lparr>conversations := parsed,
                              currentConversationId := Some (c_id first),
                              messages := c_messages first\<rparr>))))"

definition loadKnowledgeDocuments :: "storage \<Rightarrow> state \<Rightarrow> error + state" where
  "loadKnowledgeDocuments ls st =
     (case ls ''knowledgeDocuments'' of
        None \<Rightarrow> Inr st
      | Some savedDocs \<Rightarrow>
          if savedDocs = [] then Inr st
          else
            (case deserialize_documents savedDocs of
               Inl e \<Rightarrow> Inl e
             | Inr docs \<Rightarrow> Inr (st\<lparr>knowledgeDocuments := docs\<rparr>)))"

definition loadEffect :: "storage \<Rightarrow> error + state" where
  "loadEffect ls =
     (case loadConversations ls initial_state of
        Inl e \<Rightarrow> Inl e
      | Inr st \<Rightarrow> loadKnowledgeDocuments ls st)"

section \<open>Sessions\<close>

text \<open>
  The events of a session. A \<open>HandleSendMessage\<close> event is a send during whose \<open>await\<close>
  no other event occurs; a send with events in between is \<open>submitMessage\<close>, the handlers
  of those events, and \<open>settleMessage\<close>.
\<close>

datatype event =
    CreateNewConversation Date
  | SwitchConversation string
  | SetInput string
  | SetUploadName string
  | SetUploadContent string
  | HandleAddDocument Date
  | DeleteDocument string
  | HandleSendMessage Date Date "request \<Rightarrow> fetch_outcome"

fun handle :: "event \<Rightarrow> state \<Rightarrow> state" where
  "handle (CreateNewConversation date) st = createNewConversation date st"
| "handle (SwitchConversation convId) st = switchConversation convId st"
| "handle (SetInput text) st = st\<lparr>input := text\<rparr>"
| "handle (SetUploadName text) st = st\<lparr>uploadName := text\<rparr>"
| "handle (SetUploadContent text) st = st\<lparr>uploadContent := text\<rparr>"
| "handle (HandleAddDocument date) st = handleAddDocument date st"
| "handle (DeleteDocument docId) st = deleteDocument docId st"
| "handle (HandleSendMessage date date2 fetch) st = handleSendMessage date date2 fetch st"

definition step :: "event \<Rightarrow> state \<times> storage \<Rightarrow> state \<times> storage" where
  "step ev w = (let st = handle ev (fst w) in (st, saveEffects st (snd w)))"

definition run :: "event list \<Rightarrow> state \<times> storage \<Rightarrow> state \<times> storage" where
  "run evs w = foldl (\<lambda>w ev. step ev w) w evs"

text \<open>The clock values that the creations and the uploads of a session read.\<close>

fun creation_times :: "event list \<Rightarrow> nat list" where
  "creation_times [] = []"
| "creation_times (CreateNewConversation date # evs) = now date # creation_times evs"
| "creation_times (ev # evs) = creation_times evs"

fun upload_times :: "event list \<Rightarrow> nat list" where
  "upload_times [] = []"
| "upload_times (HandleAddDocument date # evs) = now date # upload_times evs"
| "upload_times (ev # evs) = upload_times evs"

section \<open>The fallback chain in the words of the specification\<close>

text \<open>
  An ordered chain of candidates in which the first non-empty one wins, with a final
  literal: the candidate is empty when it is absent or falsy (for a text: when it is
  the empty string).
\<close>

fun first_non_empty :: "json option list \<Rightarrow> json \<Rightarrow> json" where
  "first_non_empty [] final = final"
| "first_non_empty (None # cs) final = first_non_empty cs final"
| "first_non_empty (Some v # cs) final = (if truthy v then v else first_non_empty cs final)"

section \<open>Example inputs\<close>

text \<open>A clock reading, and the state after a new chat and the typing of a text.\<close>

definition date0 :: Date where
  "date0 = \<lparr>now = 1700000000000, getHours = 9, getMinutes = 5,
            toLocaleString = ''11/14/2023, 9:05:00 AM'',
            toISOString = ''2023-11-14T22:13:20.000Z''\<rparr>"

definition date1 :: Date where
  "date1 = date0\<lparr>now := 1700000000001\<rparr>"

definition fresh_chat :: state where
  "fresh_chat = (createNewConversation date0 initial_state)\<lparr>input := ''hello''\<rparr>"

definition doc_a :: KnowledgeDocument where
  "doc_a = newDoc ''a.txt'' ''alpha'' date0"

definition doc_b :: KnowledgeDocument where
  "doc_b = newDoc ''b.txt'' ''beta'' date0"

definition chat_with_documents :: state where
  "chat_with_documents = fresh_chat\<lparr>knowledgeDocuments := [doc_a, doc_b]\<rparr>"

text \<open>Two response bodies.\<close>

definition empty_reply :: json where
  "empty_reply = JObject [(''success'', JBool True), (''response'', JString [])]"

definition text_reply :: json where
  "text_reply = JObject [(''success'', JBool True), (''response'', JObject [(''text'', JString ''hi there'')])]"



text \<open>A session in which the only document is uploaded and then deleted.\<close>

definition upload_then_delete :: "event list" where
  "upload_then_delete =
     [SetUploadName ''a.txt'', SetUploadContent ''alpha'', HandleAddDocument date0,
      DeleteDocument (toString (now date0))]"

section \<open>Creating a conversation\<close>

text \<open>
  C6. \<open>createNewConversation\<close> is a total function of the clock and the state. The new
  conversation holds exactly one message, the greeting with the assistant role; it is
  put in front of the collection, whose former conversations follow unchanged; it is
  the active conversation and the visible thread; the pending input is empty; the
  documents are as before.
\<close>

theorem createNewConversation_seeds_one_greeting:
  "\<exists>conv m.
     conversations (createNewConversation date st) = conv # conversations st \<and>
     c_messages conv = [m] \<and> m_role m = Assistant \<and>
     m_content m = JString ''Hi! How can I help you today?'' \<and>
     c_id conv = toString (now date) \<and> c_title conv = ''New Conversation'' \<and>
     currentConversationId (createNewConversation date st) = Some (c_id conv) \<and>
     messages (createNewConversation date st) = c_messages conv \<and>
     input (createNewConversation date st) = [] \<and>
     knowledgeDocuments (createNewConversation date st) = knowledgeDocuments st"
  by (simp add: createNewConversation_def greeting_def Let_def)

section \<open>Adding documents\<close>

lemma knowledgeDocuments_addDocument:
  "knowledgeDocuments (addDocument name content date st) =
     (if valid_call (name, content, date)
      then newDoc name content date # knowledgeDocuments st
      else knowledgeDocuments st)"
  by (simp add: addDocument_def handleAddDocument_def valid_call_def)

lemma knowledgeDocuments_addDocuments:
  "knowledgeDocuments (addDocuments calls st) =
     rev (map document_of_call (filter valid_call calls)) @ knowledgeDocuments st"
proof (induction calls arbitrary: st)
  case Nil
  show ?case by simp
next
  case (Cons call calls)
  obtain name content date where call: "call = (name, content, date)"
    by (cases call) auto
  show ?case
    unfolding call
    by (simp add: Cons.IH knowledgeDocuments_addDocument document_of_call_def)
qed

text \<open>
  C5. A call whose name or content is empty after trimming leaves the document
  collection as it was; a call with non-empty trimmed name and content puts one new
  document in front, whose size is the byte length of the content. After a sequence of
  calls the collection is the documents of the valid calls, latest first, in front of
  the former documents, so its length grew by the number of valid calls.
\<close>

theorem addDocument_prepends_valid_calls:
  "knowledgeDocuments (addDocument name content date st) =
     (if trim name = [] \<or> trim content = [] then knowledgeDocuments st
      else \<lparr>d_id = toString (now date), d_name = name, d_content = content,
            d_uploadedAt = toISOString date, d_size = blob_size content\<rparr>
           # knowledgeDocuments st) \<and>
   knowledgeDocuments (addDocuments calls st) =
     rev (map document_of_call (filter valid_call calls)) @ knowledgeDocuments st \<and>
   length (knowledgeDocuments (addDocuments calls st)) =
     length (filter valid_call calls) + length (knowledgeDocuments st)"
proof -
  have one: "knowledgeDocuments (addDocument name content date st) =
     (if trim name = [] \<or> trim content = [] then knowledgeDocuments st
      else \<lparr>d_id = toString (now date), d_name = name, d_content = content,
            d_uploadedAt = toISOString date, d_size = blob_size content\<rparr>
           # knowledgeDocuments st)"
    by (simp add: knowledgeDocuments_addDocument valid_call_def newDoc_def)
  have many: "knowledgeDocuments (addDocuments calls st) =
     rev (map document_of_call (filter valid_call calls)) @ knowledgeDocuments st"
    by (rule knowledgeDocuments_addDocuments)
  have "length (knowledgeDocuments (addDocuments calls st)) =
     length (filter valid_call calls) + length (knowledgeDocuments st)"
    by (simp add: many)
  with one many show ?thesis by blast
qed

section \<open>Sending a message\<close>

subsection \<open>Looking up the active conversation\<close>

lemma findIndex_update:
  "findIndex P xs = Some i \<Longrightarrow> P y \<Longrightarrow> find P (xs[i := y]) = Some y"
proof (induction xs arbitrary: i)
  case Nil
  then show ?case by simp
next
  case (Cons x xs)
  then show ?case by (auto split: if_splits)
qed

lemma findIndex_find:
  "findIndex P xs = Some i \<Longrightarrow> find P xs = Some (xs ! i)"
  by (induction xs arbitrary: i) (auto split: if_splits)

lemma findIndex_None_find:
  "findIndex P xs = None \<Longrightarrow> find P xs = None"
  by (induction xs) (auto split: if_splits)

lemma find_updateTitle:
  "find (\<lambda>c. c_id c = cid) (updateTitle cid text convs) =
     map_option (\<lambda>c. if length (c_messages c) = 1 then c\<lparr>c_title := take 50 text\<rparr> else c)
       (find (\<lambda>c. c_id c = cid) convs)"
proof (cases "findIndex (\<lambda>c. c_id c = cid) convs")
  case None
  then show ?thesis by (simp add: updateTitle_def findIndex_None_find)
next
  case (Some i)
  have at: "find (\<lambda>c. c_id c = cid) convs = Some (convs ! i)"
    using Some by (rule findIndex_find)
  then have "c_id (convs ! i) = cid"
    by (auto simp: find_Some_iff)
  then have "find (\<lambda>c. c_id c = cid) (convs[i := (convs ! i)\<lparr>c_title := take 50 text\<rparr>]) =
      Some ((convs ! i)\<lparr>c_title := take 50 text\<rparr>)"
    using Some by (intro findIndex_update) simp_all
  then show ?thesis using Some at by (simp add: updateTitle_def)
qed

lemma find_after_send:
  "find (\<lambda>c. c_id c = cid)
     (map (\<lambda>conv. if c_id conv = cid then conv\<lparr>c_messages := ms\<rparr> else conv) convs) =
   map_option (\<lambda>c. c\<lparr>c_messages := ms\<rparr>) (find (\<lambda>c. c_id c = cid) convs)"
  by (induction convs) simp_all

text \<open>A send without events during the \<open>await\<close>, written out.\<close>

lemma handleSendMessage_atomic:
  "handleSendMessage date date2 fetch st =
     (if send_blocked st then st
      else
        let cid = the (currentConversationId st);
            userMessage =
              \<lparr>m_id = toString (now date), m_content = JString (input st), m_role = User,
               m_timestamp = formatTimestamp date\<rparr>;
            updatedMessages = messages st @ [userMessage];
            convs = updateTitle cid (input st) (conversations st);
            outcome = fetch (build_request (input st) cid (knowledgeDocuments st))
        in case try_reply outcome of
             Inr content \<Rightarrow>
               let assistantMessage =
                     \<lparr>m_id = toString (now date2 + 1), m_content = content, m_role = Assistant,
                      m_timestamp = formatTimestamp date2\<rparr>;
                   finalMessages = updatedMessages @ [assistantMessage]
               in st\<lparr>messages := finalMessages, input := [], loading := False,
                     conversations :=
                       map (\<lambda>conv. if c_id conv = cid then conv\<lparr>c_messages := finalMessages\<rparr> else conv)
                         convs\<rparr>
           | Inl e \<Rightarrow>
               let errorMessage =
                     \<lparr>m_id = toString (now date2 + 1), m_content = JString apology_text,
                      m_role = Assistant, m_timestamp = formatTimestamp date2\<rparr>;
                   finalMessages = updatedMessages @ [errorMessage]
               in st\<lparr>messages := finalMessages, input := [], loading := False,
                     conversations :=
                       map (\<lambda>conv. if c_id conv = cid then conv\<lparr>c_messages := finalMessages\<rparr> else conv)
                         convs\<rparr>)"
  by (simp add: handleSendMessage_def submitMessage_def settleMessage_def Let_def split: sum.splits)

lemma toString_nonempty: "toString n \<noteq> []"
  by (subst toString.simps) simp

lemma fresh_chat_facts:
  "\<not> send_blocked fresh_chat"
  "currentConversationId fresh_chat = Some (toString (now date0))"
  "input fresh_chat = ''hello''"
  "find (\<lambda>c. c_id c = toString (now date0)) (conversations fresh_chat) =
     Some \<lparr>c_id = toString (now date0), c_title = ''New Conversation'',
           c_messages = [greeting\<lparr>m_timestamp := toLocaleString date0\<rparr>],
           c_createdAt = toISOString date0\<rparr>"
  by (simp_all add: fresh_chat_def createNewConversation_def send_blocked_def initial_state_def
      trim_def is_space_def Let_def toString_nonempty)

subsection \<open>The title rule\<close>

text \<open>
  C7. A send that passes the guard of the handler looks the active conversation up.
  When its message list holds exactly one message, the conversation carries the first
  50 units of the user's text as its title, already before the turn is appended
  (in the collection that \<open>updateTitle\<close> returns) and after it; with any other number
  of messages the title is as before.
\<close>

theorem send_sets_title_of_single_message_conversation:
  assumes "\<not> send_blocked st" and "currentConversationId st = Some cid"
    and "find (\<lambda>c. c_id c = cid) (conversations st) = Some conv"
  shows "find (\<lambda>c. c_id c = cid) (updateTitle cid (input st) (conversations st)) =
           Some (if length (c_messages conv) = 1 then conv\<lparr>c_title := take 50 (input st)\<rparr> else conv) \<and>
         (\<exists>conv'. find (\<lambda>c. c_id c = cid) (conversations (handleSendMessage date date2 fetch st)) = Some conv' \<and>
            c_title conv' = (if length (c_messages conv) = 1 then take 50 (input st) else c_title conv))"
  using assms
  by (auto simp: handleSendMessage_atomic Let_def find_after_send find_updateTitle split: sum.splits)

theorem send_sets_title_witness:
  "\<not> send_blocked fresh_chat \<and>
   (\<exists>conv'. find (\<lambda>c. c_id c = toString (now date0))
        (conversations (handleSendMessage date0 date0 (\<lambda>r. Rejected) fresh_chat)) = Some conv' \<and>
      c_title conv' = ''hello'')"
  using send_sets_title_of_single_message_conversation
    [OF fresh_chat_facts(1,2,4), of date0 date0 "\<lambda>r. Rejected"]
  by (simp add: fresh_chat_facts)

section \<open>Decimal numerals\<close>

lemma digit_of_digit_char: "d < 10 \<Longrightarrow> digit_of (digit_char d) = Some d"
proof -
  assume "d < 10"
  then have "d = 0 \<or> d = 1 \<or> d = 2 \<or> d = 3 \<or> d = 4 \<or> d = 5 \<or> d = 6 \<or> d = 7 \<or> d = 8 \<or> d = 9"
    by arith
  then show ?thesis
    by (elim disjE) (simp_all add: digit_of_def digit_char_def)
qed

lemma parse_nat_toString:
  "parse_nat acc (toString n @ rest) = parse_nat (acc * 10 ^ length (toString n) + n) rest"
proof (induction n arbitrary: acc rest rule: toString.induct)
  case (1 n)
  show ?case
  proof (cases "n < 10")
    case True
    then show ?thesis
      by (subst (1 2) toString.simps) (simp add: digit_of_digit_char mult.commute)
  next
    case False
    have m: "n mod 10 < 10" by simp
    have "parse_nat acc (toString n @ rest) =
        parse_nat acc (toString (n div 10) @ (digit_char (n mod 10) # rest))"
      using False by (subst toString.simps) simp
    also have "\<dots> = parse_nat (acc * 10 ^ length (toString (n div 10)) + n div 10)
        (digit_char (n mod 10) # rest)"
      using False by (simp add: 1)
    also have "\<dots> = parse_nat (10 * (acc * 10 ^ length (toString (n div 10)) + n div 10) + n mod 10) rest"
      by (simp add: digit_of_digit_char [OF m])
    also have "10 * (acc * 10 ^ length (toString (n div 10)) + n div 10) + n mod 10 =
        acc * 10 ^ length (toString n) + n"
      using False by (subst (2) toString.simps) (simp add: algebra_simps)
    finally show ?thesis .
  qed
qed

lemma parse_nat_toString_end: "parse_nat 0 (toString n) = (n, [])"
  using parse_nat_toString [of 0 n "[]"] by simp

lemma toString_inj: "toString m = toString n \<Longrightarrow> m = n"
  by (metis parse_nat_toString_end prod.inject)

section \<open>The two parts of a send\<close>


lemma submitMessage_blocked: "send_blocked st \<Longrightarrow> submitMessage date st = (st, None)"
  by (simp add: submitMessage_def)

lemma submitMessage_open:
  assumes "\<not> send_blocked st" and "currentConversationId st = Some cid"
  shows "submitMessage date st =
     (st\<lparr>messages :=
           messages st @
           [\<lparr>m_id = toString (now date), m_content = JString (input st), m_role = User,
             m_timestamp = formatTimestamp date\<rparr>],
         input := [], loading := True,
         conversations := updateTitle cid (input st) (conversations st)\<rparr>,
      Some \<lparr>ps_currentConversationId = cid,
            ps_updatedMessages =
              messages st @
              [\<lparr>m_id = toString (now date), m_content = JString (input st), m_role = User,
                m_timestamp = formatTimestamp date\<rparr>],
            ps_conversations = updateTitle cid (input st) (conversations st),
            ps_request = build_request (input st) cid (knowledgeDocuments st)\<rparr>)"
  using assms by (simp add: submitMessage_def Let_def)


lemma send_blocked_cid:
  "\<not> send_blocked st \<Longrightarrow> \<exists>cid. currentConversationId st = Some cid"
  by (auto simp: send_blocked_def split: option.splits)

text \<open>What the continuation sets does not depend on the state in which it runs.\<close>

lemma settleMessage_sets:
  "messages (settleMessage date2 outcome p st) =
     ps_updatedMessages p @
     [\<lparr>m_id = toString (now date2 + 1),
       m_content = (case try_reply outcome of Inr content \<Rightarrow> content | Inl e \<Rightarrow> JString apology_text),
       m_role = Assistant, m_timestamp = formatTimestamp date2\<rparr>]"
  "conversations (settleMessage date2 outcome p st) =
     map (\<lambda>conv. if c_id conv = ps_currentConversationId p
                  then conv\<lparr>c_messages := messages (settleMessage date2 outcome p st)\<rparr> else conv)
       (ps_conversations p)"
  "currentConversationId (settleMessage date2 outcome p st) = currentConversationId st"
  "knowledgeDocuments (settleMessage date2 outcome p st) = knowledgeDocuments st"
  "input (settleMessage date2 outcome p st) = input st"
  "loading (settleMessage date2 outcome p st) = False"
  by (simp_all add: settleMessage_def Let_def split: sum.splits)

section \<open>A send that throws\<close>




section \<open>The request\<close>

lemma sublist_join:
  "x \<in> set xs \<Longrightarrow> sublist x (join sep xs)"
proof (induction sep xs rule: join.induct)
  case (1 sep)
  then show ?case by simp
next
  case (2 sep y)
  then show ?case by simp
next
  case (3 sep y z zs)
  show ?case
  proof (cases "x = y")
    case True
    then show ?thesis by simp
  next
    case False
    with 3 have "sublist x (join sep (z # zs))" by simp
    then obtain ps ss where "join sep (z # zs) = ps @ x @ ss"
      by (auto simp: sublist_def)
    then have "join sep (y # z # zs) = (y @ sep @ ps) @ x @ ss" by simp
    then show ?thesis unfolding sublist_def by blast
  qed
qed

lemma sublist_trans': "sublist xs ys \<Longrightarrow> sublist ys zs \<Longrightarrow> sublist xs zs"
  by (rule sublist_order.order_trans)

lemma sublist_message:
  assumes "doc \<in> set docs"
  shows "sublist (document_block doc) (message (build_request text cid docs))"
proof -
  have "sublist (document_block doc) (join document_delimiter (map document_block docs))"
    using assms by (intro sublist_join) simp
  then obtain ps ss where "join document_delimiter (map document_block docs) = ps @ document_block doc @ ss"
    by (auto simp: sublist_def)
  moreover have "docs \<noteq> []" using assms by auto
  ultimately have "message (build_request text cid docs) = (text @ knowledge_header @ ps) @ document_block doc @ ss"
    by (simp add: build_request_def knowledgeContext_def)
  then show ?thesis unfolding sublist_def by blast
qed

lemma build_request_fields:
  "message (build_request text cid docs) =
     (if docs = [] then text
      else text @ knowledge_header @
           join document_delimiter
             (map (\<lambda>doc. ''Document: '' @ d_name doc @ [CHR 0x0A] @ d_content doc) docs))"
  "user_id (build_request text cid docs) = ''user-chat-'' @ cid"
  "session_id (build_request text cid docs) = ''session-'' @ cid"
  by (simp_all add: build_request_def knowledgeContext_def document_block_def [abs_def])

lemma build_request_documents:
  assumes "doc \<in> set docs"
  shows "sublist (d_name doc) (message (build_request text cid docs))"
    and "sublist (d_content doc) (message (build_request text cid docs))"
proof -
  have "document_block doc = ''Document: '' @ d_name doc @ (CHR 0x0A # d_content doc)"
    by (simp add: document_block_def)
  then have n: "sublist (d_name doc) (document_block doc)"
    unfolding sublist_def by blast
  have "document_block doc = (''Document: '' @ d_name doc @ [CHR 0x0A]) @ d_content doc @ []"
    by (simp add: document_block_def)
  then have c: "sublist (d_content doc) (document_block doc)"
    unfolding sublist_def by blast
  from n sublist_message [OF assms] show "sublist (d_name doc) (message (build_request text cid docs))"
    by (rule sublist_trans')
  from c sublist_message [OF assms] show "sublist (d_content doc) (message (build_request text cid docs))"
    by (rule sublist_trans')
qed

lemma last_message_send:
  assumes "\<not> send_blocked st"
  shows "m_content (last (messages (handleSendMessage date date2 fetch st))) =
     (case try_reply (fetch (build_request (input st) (the (currentConversationId st)) (knowledgeDocuments st))) of
        Inr content \<Rightarrow> content | Inl e \<Rightarrow> JString apology_text)"
  using assms by (simp add: handleSendMessage_atomic Let_def split: sum.splits)

text \<open>
  C4. A send that passes the guard, with the conversation \<open>cid\<close> active, issues one
  request, the one of the pending send. Its message is the text as typed when there is
  no stored document; otherwise it is the text, the fixed header, and for every stored
  document the line with its name and then its whole content, the documents separated
  by the fixed delimiter line, so that the name and the content of each stored document
  occur in the message. Its user identifier is \<open>user-chat-\<close> and its session identifier
  \<open>session-\<close> followed by \<open>cid\<close>. The handler continues with the endpoint's answer to this
  request, and the answer decides the content of the assistant message.
\<close>

theorem send_issues_request_with_text_and_documents:
  assumes "\<not> send_blocked st" and "currentConversationId st = Some cid"
  shows "\<exists>st1 p.
           submitMessage date st = (st1, Some p) \<and>
           message (ps_request p) =
             (if knowledgeDocuments st = [] then input st
              else input st @ knowledge_header @
                   join document_delimiter
                     (map (\<lambda>doc. ''Document: '' @ d_name doc @ [CHR 0x0A] @ d_content doc)
                        (knowledgeDocuments st))) \<and>
           agent_id (ps_request p) = ''693bfaa59188cfbc911c685e'' \<and>
           user_id (ps_request p) = ''user-chat-'' @ cid \<and>
           session_id (ps_request p) = ''session-'' @ cid \<and>
           (\<forall>doc \<in> set (knowledgeDocuments st).
              sublist (d_name doc) (message (ps_request p)) \<and>
              sublist (d_content doc) (message (ps_request p))) \<and>
           handleSendMessage date date2 fetch st = settleMessage date2 (fetch (ps_request p)) p st1 \<and>
           m_content (last (messages (handleSendMessage date date2 fetch st))) =
             (case try_reply (fetch (ps_request p)) of
                Inr content \<Rightarrow> content
              | Inl e \<Rightarrow> JString apology_text)"
proof -
  let ?r = "build_request (input st) cid (knowledgeDocuments st)"
  obtain st1 p where sub: "submitMessage date st = (st1, Some p)" and r: "ps_request p = ?r"
    using submitMessage_open [OF assms, of date] by simp
  have every: "\<forall>doc \<in> set (knowledgeDocuments st).
      sublist (d_name doc) (message ?r) \<and> sublist (d_content doc) (message ?r)"
    using build_request_documents by blast
  have run: "handleSendMessage date date2 fetch st = settleMessage date2 (fetch (ps_request p)) p st1"
    by (simp add: handleSendMessage_def sub)
  have shown: "m_content (last (messages (handleSendMessage date date2 fetch st))) =
      (case try_reply (fetch ?r) of Inr content \<Rightarrow> content | Inl e \<Rightarrow> JString apology_text)"
    using last_message_send [OF assms(1), of date date2 fetch] assms(2) by simp
  have agent: "agent_id ?r = ''693bfaa59188cfbc911c685e''"
    by (simp add: build_request_def)
  have fields: "message (ps_request p) =
      (if knowledgeDocuments st = [] then input st
       else input st @ knowledge_header @
            join document_delimiter
              (map (\<lambda>doc. ''Document: '' @ d_name doc @ [CHR 0x0A] @ d_content doc)
                 (knowledgeDocuments st)))"
    "agent_id (ps_request p) = ''693bfaa59188cfbc911c685e''"
    "user_id (ps_request p) = ''user-chat-'' @ cid"
    "session_id (ps_request p) = ''session-'' @ cid"
    unfolding r by (rule build_request_fields agent)+
  from sub fields every [folded r] run shown [folded r] show ?thesis by blast
qed

theorem send_issues_request_witness:
  "\<exists>st1 p.
     submitMessage date0 chat_with_documents = (st1, Some p) \<and>
     message (ps_request p) =
       ''hello'' @ [CHR 0x0A, CHR 0x0A] @ ''Relevant Knowledge Base:'' @ [CHR 0x0A] @
       ''Document: a.txt'' @ [CHR 0x0A] @ ''alpha'' @ [CHR 0x0A] @ ''---'' @ [CHR 0x0A] @
       ''Document: b.txt'' @ [CHR 0x0A] @ ''beta'' \<and>
     user_id (ps_request p) = ''user-chat-'' @ toString (now date0) \<and>
     session_id (ps_request p) = ''session-'' @ toString (now date0) \<and>
     sublist ''alpha'' (message (ps_request p)) \<and> sublist ''beta'' (message (ps_request p))"
proof -
  have h: "\<not> send_blocked chat_with_documents"
    "currentConversationId chat_with_documents = Some (toString (now date0))"
    using fresh_chat_facts(1,2) by (simp_all add: chat_with_documents_def send_blocked_def)
  have docs: "knowledgeDocuments chat_with_documents = [doc_a, doc_b]"
    "input chat_with_documents = ''hello''"
    by (simp_all add: chat_with_documents_def fresh_chat_facts)
  from send_issues_request_with_text_and_documents [OF h, of date0 date1 "\<lambda>r. Rejected"]
  obtain st1 p where sub: "submitMessage date0 chat_with_documents = (st1, Some p)"
    and msg: "message (ps_request p) =
       ''hello'' @ knowledge_header @ join document_delimiter
         (map (\<lambda>doc. ''Document: '' @ d_name doc @ [CHR 0x0A] @ d_content doc) [doc_a, doc_b])"
    and ids: "user_id (ps_request p) = ''user-chat-'' @ toString (now date0)"
      "session_id (ps_request p) = ''session-'' @ toString (now date0)"
    and every: "\<forall>doc \<in> set [doc_a, doc_b].
      sublist (d_name doc) (message (ps_request p)) \<and> sublist (d_content doc) (message (ps_request p))"
    by (auto simp: docs)
  from every have parts: "sublist ''alpha'' (message (ps_request p))"
    "sublist ''beta'' (message (ps_request p))"
    by (simp_all add: doc_a_def doc_b_def newDoc_def)
  from msg have "message (ps_request p) =
       ''hello'' @ [CHR 0x0A, CHR 0x0A] @ ''Relevant Knowledge Base:'' @ [CHR 0x0A] @
       ''Document: a.txt'' @ [CHR 0x0A] @ ''alpha'' @ [CHR 0x0A] @ ''---'' @ [CHR 0x0A] @
       ''Document: b.txt'' @ [CHR 0x0A] @ ''beta''"
    by (simp add: doc_a_def doc_b_def newDoc_def knowledge_header_def document_delimiter_def)
  with sub ids parts show ?thesis by blast
qed

section \<open>The displayed reply\<close>

lemma or_else_chain:
  "or_else a (first_non_empty cs final) = first_non_empty (a # cs) final"
  by (cases a) (simp_all add: or_else_def)

lemma assistantContent_chain:
  "data \<noteq> JNull \<Longrightarrow>
   assistantContent data =
     Inr (if truthy_opt (get_prop data ''success'') \<and> truthy_opt (get_prop data ''response'')
          then first_non_empty
                 [opt_prop (get_prop data ''response'') ''result'',
                  opt_prop (get_prop data ''response'') ''response'',
                  opt_prop (get_prop data ''response'') ''text'',
                  Some (string_or_null (get_prop data ''response'')),
                  get_prop data ''raw_response'']
                 (JString no_response_text)
          else first_non_empty [get_prop data ''raw_response''] (JString processing_error_text))"
  by (simp add: assistantContent_def Let_def or_else_chain [symmetric])

text \<open>
  C2, as stated, fails: a body whose success flag is set and whose response field is
  present but empty, with no raw-response field, is shown as the processing-error text
  with which the variable starts, not as the last literal of the chain.
\<close>

theorem empty_response_shows_processing_error:
  "truthy_opt (get_prop empty_reply ''success'') \<and>
   get_prop empty_reply ''response'' = Some (JString []) \<and>
   get_prop empty_reply ''raw_response'' = None \<and>
   try_reply (Parsed empty_reply) =
     Inr (JString ''I encountered an error processing your request. Please try again.'') \<and>
   try_reply (Parsed empty_reply) \<noteq> Inr (JString ''No response generated'') \<and>
   m_content (last (messages (handleSendMessage date0 date1 (\<lambda>r. Parsed empty_reply) fresh_chat))) =
     JString ''I encountered an error processing your request. Please try again.''"
proof -
  have t: "try_reply (Parsed empty_reply) = Inr (JString processing_error_text)"
    by (simp add: try_reply_def empty_reply_def assistantContent_def truthy_opt_def or_else_def)
  have "m_content (last (messages (handleSendMessage date0 date1 (\<lambda>r. Parsed empty_reply) fresh_chat))) =
     JString processing_error_text"
    by (simp add: last_message_send [OF fresh_chat_facts(1)] t)
  with t show ?thesis
    by (simp add: processing_error_text_def) (simp add: empty_reply_def truthy_opt_def)
qed

text \<open>
  C2, amended. The assistant message that the continuation of a send appends, and
  so the last message of the thread after a send that passes the guard, has as its
  content the fixed apology when the promise of \<open>fetch\<close> rejects, when the body is
  malformed, and when the body is \<open>null\<close>. For any other body, when the success flag and
  the response field are both non-empty, it is the first non-empty of: the result, the
  response and the text field of the response, the response itself when it is a
  string, the top-level raw-response field; and \<open>No response generated\<close> when all are
  empty. When the flag or the response field is empty, it is the raw-response field
  when non-empty and the fixed processing-error text otherwise.
\<close>

theorem displayed_text_by_cases:
  assumes "\<not> send_blocked st"
    and "outcome = fetch (build_request (input st) (the (currentConversationId st)) (knowledgeDocuments st))"
  shows
    "m_content (last (messages (handleSendMessage date date2 fetch st))) =
       m_content (last (messages (settleMessage date2 outcome p st2))) \<and>
     (let shown = m_content (last (messages (settleMessage date2 outcome p st2))) in
      case outcome of
        Rejected \<Rightarrow> shown = JString apology_text
      | Malformed \<Rightarrow> shown = JString apology_text
      | Parsed data \<Rightarrow>
          if data = JNull then shown = JString apology_text
          else if truthy_opt (get_prop data ''success'') \<and> truthy_opt (get_prop data ''response'')
          then shown =
            first_non_empty
              [opt_prop (get_prop data ''response'') ''result'',
               opt_prop (get_prop data ''response'') ''response'',
               opt_prop (get_prop data ''response'') ''text'',
               Some (string_or_null (get_prop data ''response'')),
               get_prop data ''raw_response'']
              (JString no_response_text)
          else shown =
            first_non_empty [get_prop data ''raw_response''] (JString processing_error_text))"
proof -
  have same: "m_content (last (messages (handleSendMessage date date2 fetch st))) =
       m_content (last (messages (settleMessage date2 outcome p st2)))"
    by (simp add: settleMessage_sets(1) last_message_send [OF assms(1)] assms(2))
  have cases: "(let shown = m_content (last (messages (settleMessage date2 outcome p st2))) in
      case outcome of
        Rejected \<Rightarrow> shown = JString apology_text
      | Malformed \<Rightarrow> shown = JString apology_text
      | Parsed data \<Rightarrow>
          if data = JNull then shown = JString apology_text
          else if truthy_opt (get_prop data ''success'') \<and> truthy_opt (get_prop data ''response'')
          then shown =
            first_non_empty
              [opt_prop (get_prop data ''response'') ''result'',
               opt_prop (get_prop data ''response'') ''response'',
               opt_prop (get_prop data ''response'') ''text'',
               Some (string_or_null (get_prop data ''response'')),
               get_prop data ''raw_response'']
              (JString no_response_text)
          else shown =
            first_non_empty [get_prop data ''raw_response''] (JString processing_error_text))"
  proof (cases outcome)
    case Rejected
    then show ?thesis by (simp add: settleMessage_sets(1) try_reply_def)
  next
    case Malformed
    then show ?thesis by (simp add: settleMessage_sets(1) try_reply_def)
  next
    case (Parsed data)
    show ?thesis
    proof (cases "data = JNull")
      case True
      with Parsed show ?thesis
        by (simp add: settleMessage_sets(1) try_reply_def assistantContent_def)
    next
      case False
      with Parsed show ?thesis
        by (auto simp: settleMessage_sets(1) try_reply_def assistantContent_chain [OF False])
    qed
  qed
  from same cases show ?thesis by blast
qed

theorem displayed_text_witness:
  "m_content (last (messages (handleSendMessage date0 date1 (\<lambda>r. Parsed text_reply) fresh_chat)))
     = JString ''hi there''"
proof -
  obtain st1 p where sub: "submitMessage date0 fresh_chat = (st1, Some p)"
    using submitMessage_open [OF fresh_chat_facts(1,2), of date0] by blast
  from displayed_text_by_cases [OF fresh_chat_facts(1) refl, of date0 date1 "\<lambda>r. Parsed text_reply" p st1]
  show ?thesis
    by (simp add: Let_def) (simp add: text_reply_def truthy_opt_def string_or_null_def)
qed

section \<open>Identifiers\<close>

lemma findIndex_less: "findIndex P xs = Some i \<Longrightarrow> i < length xs"
  by (induction xs arbitrary: i) (auto split: if_splits)

lemma map_c_id_updateTitle: "map c_id (updateTitle cid text convs) = map c_id convs"
proof (cases "findIndex (\<lambda>c. c_id c = cid) convs")
  case None
  then show ?thesis by (simp add: updateTitle_def)
next
  case (Some i)
  then have "i < length convs" by (rule findIndex_less)
  then have "(map c_id convs)[i := c_id (convs ! i)] = map c_id convs"
    by (metis length_map list_update_id nth_map)
  then show ?thesis using Some by (simp add: updateTitle_def map_update)
qed

lemma map_c_id_set_messages:
  "map c_id (map (\<lambda>conv. if c_id conv = cid then conv\<lparr>c_messages := ms\<rparr> else conv) convs) =
     map c_id convs"
  by (induction convs) simp_all

text \<open>
  The continuation of a send installs the conversations of its closure, whose ids are
  the ids at the submit.
\<close>

lemma c_ids_submitMessage:
  assumes "submitMessage date st = (st1, Some p)"
  shows "map c_id (ps_conversations p) = map c_id (conversations st)"
    and "map c_id (conversations st1) = map c_id (conversations st)"
  using assms
  by (auto simp: submitMessage_def Let_def map_c_id_updateTitle split: if_splits)

lemma c_ids_settleMessage:
  "map c_id (conversations (settleMessage date2 outcome p st)) = map c_id (ps_conversations p)"
  by (simp add: settleMessage_sets(2) map_c_id_set_messages del: map_map)

lemma c_ids_handle:
  "map c_id (conversations (handle ev st)) =
     (case ev of CreateNewConversation date \<Rightarrow> toString (now date) # map c_id (conversations st)
      | _ \<Rightarrow> map c_id (conversations st))"
proof (cases ev)
  case (HandleSendMessage d d2 f)
  then show ?thesis
    by (simp add: handleSendMessage_atomic Let_def map_c_id_updateTitle map_c_id_set_messages
        split: sum.splits del: map_map)
qed (simp_all add: createNewConversation_def Let_def switchConversation_def handleAddDocument_def
      deleteDocument_def split: option.splits)

lemma documents_handle:
  "knowledgeDocuments (handle ev st) =
     (case ev of
        HandleAddDocument date \<Rightarrow> knowledgeDocuments (handleAddDocument date st)
      | DeleteDocument docId \<Rightarrow> filter (\<lambda>doc. d_id doc \<noteq> docId) (knowledgeDocuments st)
      | _ \<Rightarrow> knowledgeDocuments st)"
  by (cases ev) (simp_all add: createNewConversation_def Let_def switchConversation_def
      deleteDocument_def handleSendMessage_atomic split: option.splits sum.splits)

lemma run_Cons: "run (ev # evs) w = run evs (step ev w)"
  by (simp add: run_def)

text \<open>
  C9, amended. From a state whose conversation ids are pairwise distinct and whose
  document ids are pairwise distinct, a sequence of events in which the creations of
  conversations read pairwise distinct clock values, none of them the id of a
  conversation already there, and the uploads likewise, leads to a state whose
  conversation ids are pairwise distinct and whose document ids are pairwise distinct.
\<close>

theorem ids_distinct_for_distinct_clock_values:
  assumes "distinct (map c_id (conversations st))"
    and "distinct (map d_id (knowledgeDocuments st))"
    and "distinct (creation_times evs)" and "distinct (upload_times evs)"
    and "\<forall>t \<in> set (creation_times evs). toString t \<notin> c_id ` set (conversations st)"
    and "\<forall>t \<in> set (upload_times evs). toString t \<notin> d_id ` set (knowledgeDocuments st)"
  shows "distinct (map c_id (conversations (fst (run evs (st, ls))))) \<and>
         distinct (map d_id (knowledgeDocuments (fst (run evs (st, ls)))))"
  using assms
proof (induction evs arbitrary: st ls)
  case Nil
  then show ?case by (simp add: run_def)
next
  case (Cons ev evs)
  let ?st = "handle ev st"
  have step: "step ev (st, ls) = (?st, saveEffects ?st ls)"
    by (simp add: step_def Let_def)
  have c1: "distinct (map c_id (conversations ?st))"
    using Cons.prems(1,5) by (auto simp: c_ids_handle split: event.splits)
  have c2: "distinct (creation_times evs)"
    using Cons.prems(3) by (cases ev) auto
  have c3: "\<forall>t \<in> set (creation_times evs). toString t \<notin> c_id ` set (conversations ?st)"
  proof
    fix t assume t: "t \<in> set (creation_times evs)"
    have old: "toString t \<notin> c_id ` set (conversations st)"
      using Cons.prems(5) t by (cases ev) auto
    have "toString t \<notin> set (map c_id (conversations ?st))"
    proof (cases ev)
      case (CreateNewConversation date)
      with Cons.prems(3) t have "t \<noteq> now date" by auto
      then have "toString t \<noteq> toString (now date)" using toString_inj by blast
      with old CreateNewConversation show ?thesis unfolding c_ids_handle by simp
    qed (use old in \<open>unfold c_ids_handle, simp_all\<close>)
    then show "toString t \<notin> c_id ` set (conversations ?st)" by simp
  qed
  have d1: "distinct (map d_id (knowledgeDocuments ?st))"
    using Cons.prems(2,6)
    by (auto simp: documents_handle handleAddDocument_def newDoc_def distinct_map_filter
        split: event.splits)
  have d2: "distinct (upload_times evs)"
    using Cons.prems(4) by (cases ev) auto
  have d3: "\<forall>t \<in> set (upload_times evs). toString t \<notin> d_id ` set (knowledgeDocuments ?st)"
  proof
    fix t assume t: "t \<in> set (upload_times evs)"
    have old: "toString t \<notin> d_id ` set (knowledgeDocuments st)"
      using Cons.prems(6) t by (cases ev) auto
    show "toString t \<notin> d_id ` set (knowledgeDocuments ?st)"
    proof (cases ev)
      case (HandleAddDocument date)
      with Cons.prems(4) t have "t \<noteq> now date" by auto
      then have "toString t \<noteq> toString (now date)" using toString_inj by blast
      with old HandleAddDocument show ?thesis
        unfolding documents_handle by (auto simp: handleAddDocument_def newDoc_def)
    qed (use old in \<open>unfold documents_handle, auto\<close>)
  qed
  show ?case
    unfolding run_Cons step
    by (rule Cons.IH [OF c1 d1 c2 d2 c3 d3])
qed

text \<open>
  C9, as stated, fails: the id is the decimal numeral of the clock value and nothing
  else, so two conversations created at the same clock value carry the same id.
\<close>

theorem conversations_of_one_instant_share_id:
  "\<not> distinct (map c_id (conversations (fst
      (run [CreateNewConversation date0, CreateNewConversation date0] (initial_state, Map.empty)))))"
  by (simp add: run_def step_def Let_def createNewConversation_def initial_state_def)

theorem ids_distinct_witness:
  "distinct (map c_id (conversations (fst
      (run [CreateNewConversation date0, SetUploadName ''a.txt'', SetUploadContent ''alpha'',
            HandleAddDocument date0, CreateNewConversation date1, HandleAddDocument date1]
         (initial_state, Map.empty))))) \<and>
   length (conversations (fst
      (run [CreateNewConversation date0, SetUploadName ''a.txt'', SetUploadContent ''alpha'',
            HandleAddDocument date0, CreateNewConversation date1, HandleAddDocument date1]
         (initial_state, Map.empty)))) = 2"
proof -
  have h: "distinct (map c_id (conversations initial_state))"
    "distinct (map d_id (knowledgeDocuments initial_state))"
    "distinct (creation_times [CreateNewConversation date0, SetUploadName ''a.txt'', SetUploadContent ''alpha'',
            HandleAddDocument date0, CreateNewConversation date1, HandleAddDocument date1])"
    "distinct (upload_times [CreateNewConversation date0, SetUploadName ''a.txt'', SetUploadContent ''alpha'',
            HandleAddDocument date0, CreateNewConversation date1, HandleAddDocument date1])"
    "\<forall>t \<in> set (creation_times [CreateNewConversation date0, SetUploadName ''a.txt'', SetUploadContent ''alpha'',
            HandleAddDocument date0, CreateNewConversation date1, HandleAddDocument date1]).
       toString t \<notin> c_id ` set (conversations initial_state)"
    "\<forall>t \<in> set (upload_times [CreateNewConversation date0, SetUploadName ''a.txt'', SetUploadContent ''alpha'',
            HandleAddDocument date0, CreateNewConversation date1, HandleAddDocument date1]).
       toString t \<notin> d_id ` set (knowledgeDocuments initial_state)"
    by (simp_all add: initial_state_def date0_def date1_def)
  have len: "length (conversations (fst
      (run [CreateNewConversation date0, SetUploadName ''a.txt'', SetUploadContent ''alpha'',
            HandleAddDocument date0, CreateNewConversation date1, HandleAddDocument date1]
         (initial_state, Map.empty)))) = 2"
    by (simp add: run_def step_def Let_def createNewConversation_def initial_state_def
        handleAddDocument_def)
  from ids_distinct_for_distinct_clock_values [OF h, of Map.empty] len
  show ?thesis by blast
qed

section \<open>Parsing what stringify wrote\<close>

subsection \<open>String literals\<close>

lemma hex_of_hex_char: "d < 16 \<Longrightarrow> hex_of (hex_char d) = Some d"
proof -
  assume "d < 16"
  then have "d = 0 \<or> d = 1 \<or> d = 2 \<or> d = 3 \<or> d = 4 \<or> d = 5 \<or> d = 6 \<or> d = 7 \<or> d = 8 \<or> d = 9
      \<or> d = 10 \<or> d = 11 \<or> d = 12 \<or> d = 13 \<or> d = 14 \<or> d = 15"
    by arith
  then show ?thesis
    by (elim disjE) (simp_all add: hex_of_def digit_of_def hex_char_def)
qed

lemma unicode_escape_control:
  assumes "(of_char c :: nat) < 32"
  shows "unicode_escape CHR ''0'' CHR ''0'' (hex_char ((of_char c :: nat) div 16))
           (hex_char ((of_char c :: nat) mod 16)) = Some c"
proof -
  have z: "hex_of CHR ''0'' = Some 0" by (simp add: hex_of_def digit_of_def)
  have hi: "hex_of (hex_char ((of_char c :: nat) div 16)) = Some ((of_char c :: nat) div 16)"
    using assms by (intro hex_of_hex_char) simp
  have lo: "hex_of (hex_char ((of_char c :: nat) mod 16)) = Some ((of_char c :: nat) mod 16)"
    by (intro hex_of_hex_char) simp
  have "char_of (16 * ((of_char c :: nat) div 16) + (of_char c :: nat) mod 16) = c"
    by simp
  then show ?thesis by (simp add: unicode_escape_def z hi lo)
qed

lemma parse_chars_escape:
  "parse_chars (escape c @ s) = cons_chars c (parse_chars s)"
proof -
  consider (short) "c \<in> set [CHR 0x22, CHR 0x5C, CHR 0x08, CHR 0x0C, CHR 0x0A, CHR 0x0D, CHR 0x09]"
    | (control) "c \<notin> set [CHR 0x22, CHR 0x5C, CHR 0x08, CHR 0x0C, CHR 0x0A, CHR 0x0D, CHR 0x09]"
        "(of_char c :: nat) < 32"
    | (plain) "c \<notin> set [CHR 0x22, CHR 0x5C, CHR 0x08, CHR 0x0C, CHR 0x0A, CHR 0x0D, CHR 0x09]"
        "\<not> (of_char c :: nat) < 32"
    by blast
  then show ?thesis
  proof cases
    case short
    then have "c = CHR 0x22 \<or> c = CHR 0x5C \<or> c = CHR 0x08 \<or> c = CHR 0x0C \<or> c = CHR 0x0A
        \<or> c = CHR 0x0D \<or> c = CHR 0x09"
      by simp
    then show ?thesis
      by (elim disjE) (simp_all add: escape_def unescape_def cons_chars_def)
  next
    case control
    then have esc: "escape c = [CHR 0x5C, CHR ''u'', CHR ''0'', CHR ''0'',
         hex_char ((of_char c :: nat) div 16), hex_char ((of_char c :: nat) mod 16)]"
      by (simp add: escape_def)
    show ?thesis
      by (simp add: esc unicode_escape_control [OF control(2)] cons_chars_def)
  next
    case plain
    then have esc: "escape c = [c]" by (simp add: escape_def)
    from plain show ?thesis
      by (simp add: esc cons_chars_def)
  qed
qed

lemma parse_chars_escaped:
  "parse_chars (concat (map escape s) @ CHR 0x22 # rest) = Some (s, rest)"
proof (induction s)
  case Nil
  show ?case by simp
next
  case (Cons c s)
  have "parse_chars (concat (map escape (c # s)) @ CHR 0x22 # rest) =
      parse_chars (escape c @ (concat (map escape s) @ CHR 0x22 # rest))"
    by simp
  also have "\<dots> = cons_chars c (parse_chars (concat (map escape s) @ CHR 0x22 # rest))"
    by (rule parse_chars_escape)
  also have "\<dots> = Some (c # s, rest)"
    by (simp add: Cons.IH cons_chars_def)
  finally show ?case .
qed

lemma parse_chars_quote:
  "quote s @ rest = CHR 0x22 # concat (map escape s) @ CHR 0x22 # rest"
  "parse_chars (concat (map escape s) @ CHR 0x22 # rest) = Some (s, rest)"
  by (simp_all add: quote_def parse_chars_escaped)

subsection \<open>Numerals\<close>

lemma parse_nat_no_digit: "no_digit_ahead rest \<Longrightarrow> parse_nat acc rest = (acc, rest)"
  by (cases rest) (simp_all add: no_digit_ahead_def)

lemma toString_head:
  "\<exists>d r. toString n = digit_char d # r \<and> d < 10 \<and> (d = 0 \<longrightarrow> n = 0 \<and> r = [])"
proof (induction n rule: toString.induct)
  case (1 n)
  show ?case
  proof (cases "n < 10")
    case True
    then have "toString n = digit_char n # []" by (subst toString.simps) simp
    with True show ?thesis by blast
  next
    case False
    with 1 obtain d r where dr: "toString (n div 10) = digit_char d # r" "d < 10"
        "d = 0 \<longrightarrow> n div 10 = 0 \<and> r = []"
      by blast
    from False have "n div 10 \<noteq> 0" by simp
    with dr have "d \<noteq> 0" by blast
    moreover have "toString n = digit_char d # (r @ [digit_char (n mod 10)])"
      using False dr by (subst toString.simps) simp
    ultimately show ?thesis using dr(2) by blast
  qed
qed

lemma digit_char_zero_iff: "d < 10 \<Longrightarrow> digit_char d = CHR ''0'' \<longleftrightarrow> d = 0"
proof -
  assume "d < 10"
  then have "d = 0 \<or> d = 1 \<or> d = 2 \<or> d = 3 \<or> d = 4 \<or> d = 5 \<or> d = 6 \<or> d = 7 \<or> d = 8 \<or> d = 9"
    by arith
  then show ?thesis
    by (elim disjE) (simp_all add: digit_char_def)
qed

lemma parse_number_toString:
  assumes "no_digit_ahead rest"
  shows "parse_number (toString n @ rest) = Some (n, rest)"
proof -
  obtain d r where dr: "toString n = digit_char d # r" "d < 10" "d = 0 \<longrightarrow> n = 0 \<and> r = []"
    using toString_head by blast
  have dig: "digit_of (digit_char d) = Some d" using dr(2) by (rule digit_of_digit_char)
  show ?thesis
  proof (cases "d = 0")
    case True
    with dr show ?thesis by (simp add: parse_number_def digit_char_def digit_of_def)
  next
    case False
    then have nz: "digit_char d \<noteq> CHR ''0''" using dr(2) by (simp add: digit_char_zero_iff)
    have "parse_nat 0 (toString n @ rest) = (n, rest)"
      using parse_nat_toString [of 0 n rest] by (simp add: parse_nat_no_digit [OF assms])
    then show ?thesis
      using dr(1) dig nz by (simp add: parse_number_def)
  qed
qed

subsection \<open>Values\<close>

lemma expect_hit: "\<not> is_json_ws c \<Longrightarrow> expect c (c # r) = Some r"
  by (simp add: expect_def skip_ws_def)

lemma expect_miss: "\<not> is_json_ws x \<Longrightarrow> x \<noteq> c \<Longrightarrow> expect c (x # r) = None"
  by (simp add: expect_def skip_ws_def)

lemma parse_value_null: "parse_value (Suc n) (''null'' @ rest) = Some (JNull, rest)"
  by (simp add: parse_value.simps parse_scalar_def skip_ws_def is_json_ws_def)

lemma parse_value_bool:
  "parse_value (Suc n) ((if b then ''true'' else ''false'') @ rest) = Some (JBool b, rest)"
  by (simp add: parse_value.simps parse_scalar_def skip_ws_def is_json_ws_def)

lemma parse_value_string: "parse_value (Suc n) (quote s @ rest) = Some (JString s, rest)"
  by (simp add: parse_value.simps parse_scalar_def quote_def skip_ws_def is_json_ws_def parse_chars_escaped)

lemma parse_value_digit:
  assumes "d < 10"
  shows "parse_value (Suc n) (digit_char d # r) =
     (case parse_number (digit_char d # r) of
        None \<Rightarrow> None
      | Some (k, rest) \<Rightarrow> Some (JNumber (int k), rest))"
proof -
  from assms
  have "d = 0 \<or> d = 1 \<or> d = 2 \<or> d = 3 \<or> d = 4 \<or> d = 5 \<or> d = 6 \<or> d = 7 \<or> d = 8 \<or> d = 9"
    by arith
  then show ?thesis
    by (elim disjE) (simp_all add: parse_value.simps parse_scalar_def skip_ws_def is_json_ws_def digit_char_def)
qed

lemma parse_value_minus:
  "parse_value (Suc n) (CHR ''-'' # r) =
     (case parse_number r of None \<Rightarrow> None | Some (k, rest) \<Rightarrow> Some (JNumber (- int k), rest))"
  by (simp add: parse_value.simps parse_scalar_def skip_ws_def is_json_ws_def)

lemma parse_value_number:
  assumes "no_digit_ahead rest"
  shows "parse_value (Suc n) (stringify (JNumber k) @ rest) = Some (JNumber k, rest)"
proof (cases "k < 0")
  case True
  then show ?thesis
    by (simp add: parse_value_minus parse_number_toString [OF assms])
next
  case False
  obtain d r where dr: "toString (nat k) = digit_char d # r" "d < 10"
    using toString_head by blast
  have "parse_value (Suc n) (toString (nat k) @ rest) =
      (case parse_number (toString (nat k) @ rest) of
         None \<Rightarrow> None
       | Some (k, rest) \<Rightarrow> Some (JNumber (int k), rest))"
    using parse_value_digit [OF dr(2), of n "r @ rest"] by (simp add: dr(1))
  with False show ?thesis
    by (simp add: parse_number_toString [OF assms])
qed

lemma parse_value_array:
  "expect CHR '']'' r = None \<Longrightarrow>
   parse_value (Suc n) (CHR ''['' # r) =
     (case parse_elems n r of None \<Rightarrow> None | Some (vs, rest) \<Rightarrow> Some (JArray vs, rest))"
  by (simp add: parse_value.simps parse_scalar_def skip_ws_def is_json_ws_def)

lemma parse_value_array_empty: "parse_value (Suc n) (''[]'' @ rest) = Some (JArray [], rest)"
  by (simp add: parse_value.simps parse_scalar_def skip_ws_def is_json_ws_def expect_def)

lemma parse_value_object:
  "expect CHR ''}'' r = None \<Longrightarrow>
   parse_value (Suc n) (CHR ''{'' # r) =
     (case parse_members n r of None \<Rightarrow> None | Some (kvs, rest) \<Rightarrow> Some (JObject kvs, rest))"
  by (simp add: parse_value.simps parse_scalar_def skip_ws_def is_json_ws_def)

lemma parse_value_object_empty: "parse_value (Suc n) (''{}'' @ rest) = Some (JObject [], rest)"
  by (simp add: parse_value.simps parse_scalar_def skip_ws_def is_json_ws_def expect_def)

text \<open>The first character of a serialised value starts a value.\<close>

lemma stringify_head:
  "\<exists>c r. stringify j = c # r \<and> \<not> is_json_ws c \<and> c \<noteq> CHR '']'' \<and> c \<noteq> CHR ''}''"
proof (cases j)
  case (JNumber k)
  obtain d r where dr: "toString (nat k) = digit_char d # r" "d < 10"
    using toString_head by blast
  from dr(2)
  have "d = 0 \<or> d = 1 \<or> d = 2 \<or> d = 3 \<or> d = 4 \<or> d = 5 \<or> d = 6 \<or> d = 7 \<or> d = 8 \<or> d = 9"
    by arith
  then have "\<not> is_json_ws (digit_char d) \<and> digit_char d \<noteq> CHR '']'' \<and> digit_char d \<noteq> CHR ''}''"
    by (elim disjE) (simp_all add: is_json_ws_def digit_char_def)
  with JNumber dr(1) show ?thesis
    by (cases "k < 0") (simp_all add: is_json_ws_def)
qed (simp_all add: is_json_ws_def quote_def)

lemma stringify_not_closing:
  "expect CHR '']'' (stringify j @ r) = None" "expect CHR ''}'' (stringify j @ r) = None"
proof -
  obtain c s where "stringify j = c # s" "\<not> is_json_ws c" "c \<noteq> CHR '']''" "c \<noteq> CHR ''}''"
    using stringify_head by blast
  then show "expect CHR '']'' (stringify j @ r) = None" "expect CHR ''}'' (stringify j @ r) = None"
    by (simp_all add: expect_miss)
qed

lemma no_digit_ahead_delimiters [simp]:
  "no_digit_ahead []" "no_digit_ahead (CHR '','' # r)" "no_digit_ahead (CHR '']'' # r)"
  "no_digit_ahead (CHR ''}'' # r)"
  by (simp_all add: no_digit_ahead_def digit_of_def)

lemma parse_elems_join:
  assumes "\<And>x n rest. x \<in> set xs \<Longrightarrow> length (stringify x) \<le> n \<Longrightarrow> no_digit_ahead rest \<Longrightarrow>
      parse_value n (stringify x @ rest) = Some (x, rest)"
    and "xs \<noteq> []" and "length (join '','' (map stringify xs)) < m"
  shows "parse_elems m (join '','' (map stringify xs) @ CHR '']'' # rest) = Some (xs, rest)"
  using assms
proof (induction xs arbitrary: m)
  case Nil
  then show ?case by simp
next
  case (Cons x xs)
  from Cons.prems(3) obtain k where m: "m = Suc k" by (cases m) simp_all
  show ?case
  proof (cases xs)
    case Nil
    with Cons.prems(3) m have "length (stringify x) \<le> k" by simp
    then have "parse_value k (stringify x @ CHR '']'' # rest) = Some (x, CHR '']'' # rest)"
      by (intro Cons.prems(1)) simp_all
    then show ?thesis using Nil m
      by (simp add: parse_elems.simps expect_hit is_json_ws_def)
  next
    case (Cons y ys)
    let ?tail = "join '','' (map stringify xs) @ CHR '']'' # rest"
    from Cons Cons.prems(3) m have len: "length (stringify x) \<le> k"
      "length (join '','' (map stringify xs)) < k"
      by simp_all
    have "parse_value k (stringify x @ CHR '','' # ?tail) = Some (x, CHR '','' # ?tail)"
      using len(1) by (intro Cons.prems(1)) simp_all
    moreover have "parse_elems k ?tail = Some (xs, rest)"
      using Cons len(2) Cons.prems(1) by (intro Cons.IH) simp_all
    ultimately show ?thesis using Cons m
      by (simp add: parse_elems.simps expect_hit expect_miss is_json_ws_def)
  qed
qed

lemma parse_members_join:
  assumes "\<And>k v n rest. (k, v) \<in> set kvs \<Longrightarrow> length (stringify v) \<le> n \<Longrightarrow> no_digit_ahead rest \<Longrightarrow>
      parse_value n (stringify v @ rest) = Some (v, rest)"
    and "kvs \<noteq> []"
    and "length (join '','' (map (\<lambda>kv. quote (fst kv) @ '':'' @ stringify (snd kv)) kvs)) < m"
  shows "parse_members m
           (join '','' (map (\<lambda>kv. quote (fst kv) @ '':'' @ stringify (snd kv)) kvs) @ CHR ''}'' # rest) =
         Some (kvs, rest)"
  using assms
proof (induction kvs arbitrary: m)
  case Nil
  then show ?case by simp
next
  case (Cons kv kvs)
  obtain key v where kv: "kv = (key, v)" by (cases kv) auto
  from Cons.prems(3) obtain k where m: "m = Suc k" by (cases m) simp_all
  have key: "expect CHR 0x22 (quote key @ s) = Some (concat (map escape key) @ CHR 0x22 # s)" for s
    by (simp add: quote_def expect_hit is_json_ws_def)
  have colon: "expect CHR '':'' (CHR '':'' # s) = Some s" for s
    by (simp add: expect_hit is_json_ws_def)
  show ?case
  proof (cases kvs)
    case Nil
    with Cons.prems(3) m kv have "length (stringify v) \<le> k" by simp
    then have "parse_value k (stringify v @ CHR ''}'' # rest) = Some (v, CHR ''}'' # rest)"
      by (intro Cons.prems(1) [of key]) (simp_all add: kv)
    then show ?thesis using Nil m kv
      by (simp add: parse_members.simps key colon parse_chars_escaped expect_hit is_json_ws_def)
  next
    case (Cons kv2 kvs2)
    let ?tail = "join '','' (map (\<lambda>kv. quote (fst kv) @ '':'' @ stringify (snd kv)) kvs) @ CHR ''}'' # rest"
    from Cons Cons.prems(3) m kv have len: "length (stringify v) \<le> k"
      "length (join '','' (map (\<lambda>kv. quote (fst kv) @ '':'' @ stringify (snd kv)) kvs)) < k"
      by simp_all
    have "parse_value k (stringify v @ CHR '','' # ?tail) = Some (v, CHR '','' # ?tail)"
      using len(1) by (intro Cons.prems(1) [of key]) (simp_all add: kv)
    moreover have "parse_members k ?tail = Some (kvs, rest)"
      using Cons len(2) Cons.prems(1) by (intro Cons.IH) auto
    ultimately show ?thesis using Cons m kv
      by (simp add: parse_members.simps key colon parse_chars_escaped expect_hit expect_miss is_json_ws_def)
  qed
qed

lemma parse_value_stringify:
  "length (stringify j) \<le> n \<Longrightarrow> no_digit_ahead rest \<Longrightarrow>
   parse_value n (stringify j @ rest) = Some (j, rest)"
proof (induction j arbitrary: n rest)
  case JNull
  then obtain k where "n = Suc k" by (cases n) simp_all
  then show ?case using parse_value_null by simp
next
  case (JBool b)
  then obtain k where "n = Suc k" by (cases n) (simp_all split: if_splits)
  then show ?case using parse_value_bool [of k b rest] by simp
next
  case (JNumber i)
  have "stringify (JNumber i) \<noteq> []"
    using stringify_head [of "JNumber i"] by auto
  with JNumber obtain k where "n = Suc k" by (cases n) simp_all
  then show ?case using parse_value_number [OF JNumber(2)] by simp
next
  case (JString s)
  then obtain k where "n = Suc k" by (cases n) (simp_all add: quote_def)
  then show ?case using parse_value_string by simp
next
  case (JArray xs)
  from JArray.prems(1) obtain k where n: "n = Suc k" by (cases n) simp_all
  show ?case
  proof (cases "xs = []")
    case True
    then show ?thesis using n parse_value_array_empty [of k rest] by simp
  next
    case False
    then obtain x xs' where xs: "xs = x # xs'" by (cases xs) auto
    have open_: "expect CHR '']'' (join '','' (map stringify xs) @ CHR '']'' # rest) = None"
      using stringify_not_closing(1) [of x] unfolding xs by (cases xs') simp_all
    have "length (join '','' (map stringify xs)) < k"
      using JArray.prems(1) n by simp
    then have "parse_elems k (join '','' (map stringify xs) @ CHR '']'' # rest) = Some (xs, rest)"
      using JArray.IH False by (intro parse_elems_join) simp_all
    then show ?thesis using n open_
      by (simp add: parse_value_array)
  qed
next
  case (JObject kvs)
  let ?m = "\<lambda>kv. quote (fst kv) @ '':'' @ stringify (snd kv)"
  from JObject.prems(1) obtain k where n: "n = Suc k" by (cases n) simp_all
  show ?case
  proof (cases "kvs = []")
    case True
    then show ?thesis using n parse_value_object_empty [of k rest] by simp
  next
    case False
    then obtain kv kvs' where kvs: "kvs = kv # kvs'" by (cases kvs) auto
    have "expect CHR ''}'' (quote (fst kv) @ s) = None" for s
      by (simp add: quote_def expect_miss is_json_ws_def)
    then have open_: "expect CHR ''}'' (join '','' (map ?m kvs) @ CHR ''}'' # rest) = None"
      unfolding kvs by (cases kvs') simp_all
    have "length (join '','' (map ?m kvs)) < k"
      using JObject.prems(1) n by simp
    moreover have "parse_value n (stringify v @ rest) = Some (v, rest)"
      if "(key, v) \<in> set kvs" "length (stringify v) \<le> n" "no_digit_ahead rest" for key v n rest
      using that JObject.IH [of "(key, v)" v n rest] by simp
    ultimately have "parse_members k (join '','' (map ?m kvs) @ CHR ''}'' # rest) = Some (kvs, rest)"
      using False by (intro parse_members_join) simp_all
    then show ?thesis using n open_
      by (simp add: parse_value_object)
  qed
qed

text \<open>
  The bound that \<open>JSON_parse\<close> gives the descent suffices for every text that
  \<open>stringify\<close> wrote, and the parse returns the value that was written.
\<close>

lemma JSON_parse_stringify: "JSON_parse (stringify j) = Some j"
  using parse_value_stringify [of j "length (stringify j)" "[]"]
  by (simp add: JSON_parse_def skip_ws_def)

subsection \<open>The bound of the descent\<close>

lemma skip_ws_length: "length (skip_ws s) \<le> length s"
  by (simp add: skip_ws_def length_dropWhile_le)

lemma expect_shorter: "expect c s = Some r \<Longrightarrow> length r < length s"
proof -
  assume "expect c s = Some r"
  then obtain x where "skip_ws s = x # r"
    by (auto simp: expect_def split: list.splits if_splits)
  then show ?thesis using skip_ws_length [of s] by simp
qed

lemma parse_chars_shorter: "parse_chars s = Some (str, r) \<Longrightarrow> length r < length s"
proof (induction s arbitrary: str rule: length_induct)
  case (1 s)
  then obtain c t where s: "s = c # t" by (cases s) auto
  show ?case
  proof (cases "c = CHR 0x22")
    case True
    with 1(2) s show ?thesis by simp
  next
    case quote: False
    show ?thesis
    proof (cases "c = CHR 0x5C")
      case False
      with quote 1(2) s obtain str' where "parse_chars t = Some (str', r)"
        by (auto split: if_splits option.splits)
      then have "length r < length t" using 1(1) s by simp
      then show ?thesis using s by simp
    next
      case True
      with 1(2) s obtain e t1 where t: "t = e # t1" by (cases t) auto
      show ?thesis
      proof (cases "e = CHR ''u''")
        case False
        with True 1(2) s t obtain str' where "parse_chars t1 = Some (str', r)"
          by (auto split: if_splits option.splits)
        then have "length r < length t1" using 1(1) s t by simp
        then show ?thesis using s t by simp
      next
        case u: True
        with True 1(2) s t obtain h1 h2 h3 h4 t2 str' where
          "t1 = h1 # h2 # h3 # h4 # t2" "parse_chars t2 = Some (str', r)"
          by (auto split: if_splits option.splits list.splits)
        moreover from this have "length r < length t2" using 1(1) s t by simp
        ultimately show ?thesis using s t by simp
      qed
    qed
  qed
qed

lemma parse_nat_shorter: "parse_nat acc s = (k, r) \<Longrightarrow> length r \<le> length s"
  by (induction s arbitrary: acc) (auto split: option.splits simp: le_Suc_eq)

lemma parse_number_shorter: "parse_number s = Some (k, r) \<Longrightarrow> length r < length s"
proof -
  assume p: "parse_number s = Some (k, r)"
  then obtain c t where s: "s = c # t" by (cases s) (simp_all add: parse_number_def)
  show ?thesis
  proof (cases "c = CHR ''0''")
    case True
    with p s show ?thesis by (auto simp: parse_number_def split: if_splits)
  next
    case False
    with p s obtain d where d: "digit_of c = Some d" and "parse_nat 0 (c # t) = (k, r)"
      by (auto simp: parse_number_def split: if_splits)
    then have "parse_nat (10 * 0 + d) t = (k, r)" by simp
    then have "length r \<le> length t" by (rule parse_nat_shorter)
    then show ?thesis using s by simp
  qed
qed

lemma parse_scalar_shorter: "parse_scalar c t = Some (v, r) \<Longrightarrow> length r \<le> length t"
  by (auto simp: parse_scalar_def split: if_splits option.splits
      dest!: parse_chars_shorter parse_number_shorter)

lemma parse_value_step:
  assumes E: "\<And>s vs r. parse_elems n s = Some (vs, r) \<Longrightarrow>
        length r < length s \<and> (\<forall>m. length s - length r \<le> m \<longrightarrow> parse_elems m s = Some (vs, r))"
    and M: "\<And>s kvs r. parse_members n s = Some (kvs, r) \<Longrightarrow>
        length r < length s \<and> (\<forall>m. length s - length r \<le> m \<longrightarrow> parse_members m s = Some (kvs, r))"
    and p: "parse_value (Suc n) s = Some (v, r)"
  shows "length r < length s \<and> (\<forall>m. length s - length r \<le> m \<longrightarrow> parse_value m s = Some (v, r))"
proof -
  from p obtain c t where sk: "skip_ws s = c # t"
    by (cases "skip_ws s") (simp_all add: parse_value.simps)
  have len: "length t < length s" using skip_ws_length [of s] sk by simp
  have direct: ?thesis
    if same: "\<And>k. parse_value (Suc k) s = Some (v, r)" and le: "length r \<le> length t"
  proof -
    from le len have lt: "length r < length s" by simp
    have "parse_value m s = Some (v, r)" if "length s - length r \<le> m" for m
    proof -
      from that lt obtain k where "m = Suc k" by (cases m) simp_all
      then show ?thesis using same by simp
    qed
    with lt show ?thesis by blast
  qed
  consider (arr) "c = CHR ''[''" | (obj) "c \<noteq> CHR ''[''" "c = CHR ''{''"
    | (scalar) "c \<noteq> CHR ''[''" "c \<noteq> CHR ''{''"
    by blast
  then show ?thesis
  proof cases
    case scalar
    with p sk have ps: "parse_scalar c t = Some (v, r)" by (simp add: parse_value.simps)
    show ?thesis
    proof (rule direct)
      show "parse_value (Suc k) s = Some (v, r)" for k
        using sk scalar ps by (simp add: parse_value.simps)
      show "length r \<le> length t" using ps by (rule parse_scalar_shorter)
    qed
  next
    case arr
    show ?thesis
    proof (cases "expect CHR '']'' t")
      case (Some rest)
      with p sk arr have vr: "v = JArray []" "r = rest" by (simp_all add: parse_value.simps)
      show ?thesis
      proof (rule direct)
        show "parse_value (Suc k) s = Some (v, r)" for k
          using sk arr Some vr by (simp add: parse_value.simps)
        show "length r \<le> length t" using expect_shorter [OF Some] vr by simp
      qed
    next
      case None
      with p sk arr obtain vs where pe: "parse_elems n t = Some (vs, r)" and v: "v = JArray vs"
        by (auto simp: parse_value.simps split: option.splits)
      from E [OF pe] have l: "length r < length t"
        and f: "\<And>m. length t - length r \<le> m \<Longrightarrow> parse_elems m t = Some (vs, r)"
        by blast+
      from l len have lt: "length r < length s" by simp
      have "parse_value m s = Some (v, r)" if "length s - length r \<le> m" for m
      proof -
        from that lt obtain k where m: "m = Suc k" by (cases m) simp_all
        with that len have "length t - length r \<le> k" by simp
        then have "parse_elems k t = Some (vs, r)" by (rule f)
        then show ?thesis using m sk arr None v by (simp add: parse_value.simps)
      qed
      with lt show ?thesis by blast
    qed
  next
    case obj
    show ?thesis
    proof (cases "expect CHR ''}'' t")
      case (Some rest)
      with p sk obj have vr: "v = JObject []" "r = rest" by (simp_all add: parse_value.simps)
      show ?thesis
      proof (rule direct)
        show "parse_value (Suc k) s = Some (v, r)" for k
          using sk obj Some vr by (simp add: parse_value.simps)
        show "length r \<le> length t" using expect_shorter [OF Some] vr by simp
      qed
    next
      case None
      with p sk obj obtain kvs where pe: "parse_members n t = Some (kvs, r)" and v: "v = JObject kvs"
        by (auto simp: parse_value.simps split: option.splits)
      from M [OF pe] have l: "length r < length t"
        and f: "\<And>m. length t - length r \<le> m \<Longrightarrow> parse_members m t = Some (kvs, r)"
        by blast+
      from l len have lt: "length r < length s" by simp
      have "parse_value m s = Some (v, r)" if "length s - length r \<le> m" for m
      proof -
        from that lt obtain k where m: "m = Suc k" by (cases m) simp_all
        with that len have "length t - length r \<le> k" by simp
        then have "parse_members k t = Some (kvs, r)" by (rule f)
        then show ?thesis using m sk obj None v by (simp add: parse_value.simps)
      qed
      with lt show ?thesis by blast
    qed
  qed
qed

lemma parse_elems_step:
  assumes V: "\<And>s v r. parse_value n s = Some (v, r) \<Longrightarrow>
        length r < length s \<and> (\<forall>m. length s - length r \<le> m \<longrightarrow> parse_value m s = Some (v, r))"
    and E: "\<And>s vs r. parse_elems n s = Some (vs, r) \<Longrightarrow>
        length r < length s \<and> (\<forall>m. length s - length r \<le> m \<longrightarrow> parse_elems m s = Some (vs, r))"
    and p: "parse_elems (Suc n) s = Some (vs, r)"
  shows "length r < length s \<and> (\<forall>m. length s - length r \<le> m \<longrightarrow> parse_elems m s = Some (vs, r))"
proof -
  from p obtain v r1 where pv: "parse_value n s = Some (v, r1)"
    by (auto simp: parse_elems.simps split: option.splits)
  from V [OF pv] have l1: "length r1 < length s"
    and f1: "\<And>m. length s - length r1 \<le> m \<Longrightarrow> parse_value m s = Some (v, r1)"
    by blast+
  show ?thesis
  proof (cases "expect CHR '']'' r1")
    case (Some rest)
    with p pv have vr: "vs = [v]" "r = rest" by (simp_all add: parse_elems.simps)
    have l2: "length r < length r1" using expect_shorter [OF Some] vr by simp
    with l1 have lt: "length r < length s" by simp
    have "parse_elems m s = Some (vs, r)" if "length s - length r \<le> m" for m
    proof -
      from that lt obtain k where m: "m = Suc k" by (cases m) simp_all
      with that l1 l2 have "length s - length r1 \<le> k" by simp
      then have "parse_value k s = Some (v, r1)" by (rule f1)
      then show ?thesis using m Some vr by (simp add: parse_elems.simps)
    qed
    with lt show ?thesis by blast
  next
    case None
    with p pv obtain r2 vs' where comma: "expect CHR '','' r1 = Some r2"
      and pe: "parse_elems n r2 = Some (vs', r)" and vs: "vs = v # vs'"
      by (auto simp: parse_elems.simps split: option.splits)
    have l2: "length r2 < length r1" using comma by (rule expect_shorter)
    from E [OF pe] have l3: "length r < length r2"
      and f3: "\<And>m. length r2 - length r \<le> m \<Longrightarrow> parse_elems m r2 = Some (vs', r)"
      by blast+
    from l1 l2 l3 have lt: "length r < length s" by simp
    have "parse_elems m s = Some (vs, r)" if "length s - length r \<le> m" for m
    proof -
      from that lt obtain k where m: "m = Suc k" by (cases m) simp_all
      with that l1 l2 l3 have "length s - length r1 \<le> k" "length r2 - length r \<le> k" by simp_all
      then have "parse_value k s = Some (v, r1)" "parse_elems k r2 = Some (vs', r)"
        by (simp_all add: f1 f3)
      then show ?thesis using m None comma vs by (simp add: parse_elems.simps)
    qed
    with lt show ?thesis by blast
  qed
qed

lemma parse_members_step:
  assumes V: "\<And>s v r. parse_value n s = Some (v, r) \<Longrightarrow>
        length r < length s \<and> (\<forall>m. length s - length r \<le> m \<longrightarrow> parse_value m s = Some (v, r))"
    and M: "\<And>s kvs r. parse_members n s = Some (kvs, r) \<Longrightarrow>
        length r < length s \<and> (\<forall>m. length s - length r \<le> m \<longrightarrow> parse_members m s = Some (kvs, r))"
    and p: "parse_members (Suc n) s = Some (kvs, r)"
  shows "length r < length s \<and> (\<forall>m. length s - length r \<le> m \<longrightarrow> parse_members m s = Some (kvs, r))"
proof -
  from p obtain r0 key r1 r2 v r3 where q: "expect CHR 0x22 s = Some r0"
    and k: "parse_chars r0 = Some (key, r1)" and c: "expect CHR '':'' r1 = Some r2"
    and pv: "parse_value n r2 = Some (v, r3)"
    by (auto simp: parse_members.simps split: option.splits)
  have l0: "length r0 < length s" "length r1 < length r0" "length r2 < length r1"
    using expect_shorter [OF q] parse_chars_shorter [OF k] expect_shorter [OF c] by simp_all
  from V [OF pv] have l3: "length r3 < length r2"
    and f3: "\<And>m. length r2 - length r3 \<le> m \<Longrightarrow> parse_value m r2 = Some (v, r3)"
    by blast+
  show ?thesis
  proof (cases "expect CHR ''}'' r3")
    case (Some rest)
    with p q k c pv have vr: "kvs = [(key, v)]" "r = rest" by (simp_all add: parse_members.simps)
    have l4: "length r < length r3" using expect_shorter [OF Some] vr by simp
    with l0 l3 have lt: "length r < length s" by simp
    have "parse_members m s = Some (kvs, r)" if "length s - length r \<le> m" for m
    proof -
      from that lt obtain j where m: "m = Suc j" by (cases m) simp_all
      with that l0 l3 l4 have "length r2 - length r3 \<le> j" by simp
      then have "parse_value j r2 = Some (v, r3)" by (rule f3)
      then show ?thesis using m q k c Some vr by (simp add: parse_members.simps)
    qed
    with lt show ?thesis by blast
  next
    case None
    with p q k c pv obtain r4 kvs' where comma: "expect CHR '','' r3 = Some r4"
      and pm: "parse_members n r4 = Some (kvs', r)" and kvs: "kvs = (key, v) # kvs'"
      by (auto simp: parse_members.simps split: option.splits)
    have l4: "length r4 < length r3" using comma by (rule expect_shorter)
    from M [OF pm] have l5: "length r < length r4"
      and f5: "\<And>m. length r4 - length r \<le> m \<Longrightarrow> parse_members m r4 = Some (kvs', r)"
      by blast+
    from l0 l3 l4 l5 have lt: "length r < length s" by simp
    have "parse_members m s = Some (kvs, r)" if "length s - length r \<le> m" for m
    proof -
      from that lt obtain j where m: "m = Suc j" by (cases m) simp_all
      with that l0 l3 l4 l5 have "length r2 - length r3 \<le> j" "length r4 - length r \<le> j"
        by simp_all
      then have "parse_value j r2 = Some (v, r3)" "parse_members j r4 = Some (kvs', r)"
        by (simp_all add: f3 f5)
      then show ?thesis using m q k c None comma kvs by (simp add: parse_members.simps)
    qed
    with lt show ?thesis by blast
  qed
qed

lemma parse_fuel:
  "(\<forall>s v r. parse_value n s = Some (v, r) \<longrightarrow>
      length r < length s \<and> (\<forall>m. length s - length r \<le> m \<longrightarrow> parse_value m s = Some (v, r))) \<and>
   (\<forall>s vs r. parse_elems n s = Some (vs, r) \<longrightarrow>
      length r < length s \<and> (\<forall>m. length s - length r \<le> m \<longrightarrow> parse_elems m s = Some (vs, r))) \<and>
   (\<forall>s kvs r. parse_members n s = Some (kvs, r) \<longrightarrow>
      length r < length s \<and> (\<forall>m. length s - length r \<le> m \<longrightarrow> parse_members m s = Some (kvs, r)))"
proof (induction n)
  case 0
  show ?case by (simp add: parse_value.simps parse_elems.simps parse_members.simps)
next
  case (Suc n)
  then have V: "\<And>s v r. parse_value n s = Some (v, r) \<Longrightarrow>
        length r < length s \<and> (\<forall>m. length s - length r \<le> m \<longrightarrow> parse_value m s = Some (v, r))"
    and E: "\<And>s vs r. parse_elems n s = Some (vs, r) \<Longrightarrow>
        length r < length s \<and> (\<forall>m. length s - length r \<le> m \<longrightarrow> parse_elems m s = Some (vs, r))"
    and M: "\<And>s kvs r. parse_members n s = Some (kvs, r) \<Longrightarrow>
        length r < length s \<and> (\<forall>m. length s - length r \<le> m \<longrightarrow> parse_members m s = Some (kvs, r))"
    by blast+
  show ?case
    using parse_value_step [OF E M] parse_elems_step [OF V E] parse_members_step [OF V M]
    by blast
qed

text \<open>
  A parse that succeeds with some bound succeeds with the length of the text, the
  bound that \<open>JSON_parse\<close> uses, and with every larger one.
\<close>

lemma parse_value_length_suffices:
  assumes "parse_value n s = Some (v, r)" and "length s \<le> m"
  shows "parse_value m s = Some (v, r)"
proof -
  from parse_fuel [of n] assms(1)
  have "\<forall>m. length s - length r \<le> m \<longrightarrow> parse_value m s = Some (v, r)" by blast
  moreover have "length s - length r \<le> m" using assms(2) by simp
  ultimately show ?thesis by blast
qed

lemma JSON_parse_any_bound:
  assumes "parse_value n s = Some (v, r)"
  shows "JSON_parse s = (if skip_ws r = [] then Some v else None)"
  using parse_value_length_suffices [OF assms, of "length s"]
  by (simp add: JSON_parse_def)

section \<open>The store round trip\<close>

lemma those_map_inverse:
  assumes "\<And>x. f (g x) = Some x"
  shows "those (map f (map g xs)) = Some xs"
  by (induction xs) (simp_all add: assms)

lemma Message_of_json: "Message_of (Message_json m) = Some m"
  by (cases "m_role m")
    (simp_all add: Message_of_def Message_json_def string_of_def role_of_def role_name_def)

lemma Conversation_of_json: "Conversation_of (Conversation_json c) = Some c"
  by (simp add: Conversation_of_def Conversation_json_def string_of_def Messages_of_def
      those_map_inverse [where f = Message_of, OF Message_of_json] del: map_map)

lemma KnowledgeDocument_of_json: "KnowledgeDocument_of (KnowledgeDocument_json d) = Some d"
  by (simp add: KnowledgeDocument_of_def KnowledgeDocument_json_def string_of_def nat_of_def)

lemma deserialize_serialize_conversations:
  "deserialize_conversations (serialize_conversations convs) = Inr convs"
  by (simp add: deserialize_conversations_def serialize_conversations_def JSON_parse_stringify
      those_map_inverse [where f = Conversation_of, OF Conversation_of_json]
      del: map_map stringify.simps)

lemma deserialize_serialize_documents:
  "deserialize_documents (serialize_documents docs) = Inr docs"
  by (simp add: deserialize_documents_def serialize_documents_def JSON_parse_stringify
      those_map_inverse [where f = KnowledgeDocument_of, OF KnowledgeDocument_of_json]
      del: map_map stringify.simps)

lemma serialize_nonempty:
  "serialize_conversations convs \<noteq> []" "serialize_documents docs \<noteq> []"
  by (simp_all add: serialize_conversations_def serialize_documents_def)

lemma load_what_was_saved:
  assumes "ls ''conversations'' = (if convs = [] then None else Some (serialize_conversations convs))"
    and "ls ''knowledgeDocuments'' = (if docs = [] then None else Some (serialize_documents docs))"
  shows "loadEffect ls =
     Inr (initial_state
       \<lparr>conversations := convs,
        currentConversationId := (case convs of [] \<Rightarrow> None | first # _ \<Rightarrow> Some (c_id first)),
        messages := (case convs of [] \<Rightarrow> [] | first # _ \<Rightarrow> c_messages first),
        knowledgeDocuments := docs\<rparr>)"
  using assms
  by (cases convs; cases docs)
    (simp_all add: loadEffect_def loadConversations_def loadKnowledgeDocuments_def
      deserialize_serialize_conversations deserialize_serialize_documents serialize_nonempty
      initial_state_def)

lemma saveEffects_empty_store:
  "saveEffects st Map.empty ''conversations'' =
     (if conversations st = [] then None else Some (serialize_conversations (conversations st)))"
  "saveEffects st Map.empty ''knowledgeDocuments'' =
     (if knowledgeDocuments st = [] then None else Some (serialize_documents (knowledgeDocuments st)))"
  by (simp_all add: saveEffects_def saveConversations_def saveKnowledgeDocuments_def)

text \<open>
  C8. The text that the save effect writes for a conversation collection reads back
  as the same collection, with the ids, the order, the titles, the messages with
  their contents, roles and time texts, and the creation times as they were; the text
  written for a document collection reads back as the same documents, with names,
  contents, upload times and sizes. Saving a state into an empty store and loading the
  store yields both collections of that state.
\<close>

theorem store_roundtrip_identity:
  "deserialize_conversations (serialize_conversations convs) = Inr convs \<and>
   deserialize_documents (serialize_documents docs) = Inr docs \<and>
   (\<exists>st'. loadEffect (saveEffects st Map.empty) = Inr st' \<and>
      conversations st' = conversations st \<and>
      knowledgeDocuments st' = knowledgeDocuments st)"
proof -
  have "loadEffect (saveEffects st Map.empty) =
     Inr (initial_state
       \<lparr>conversations := conversations st,
        currentConversationId :=
          (case conversations st of [] \<Rightarrow> None | first # _ \<Rightarrow> Some (c_id first)),
        messages := (case conversations st of [] \<Rightarrow> [] | first # _ \<Rightarrow> c_messages first),
        knowledgeDocuments := knowledgeDocuments st\<rparr>)"
    by (rule load_what_was_saved) (rule saveEffects_empty_store)+
  then have "\<exists>st'. loadEffect (saveEffects st Map.empty) = Inr st' \<and>
      conversations st' = conversations st \<and>
      knowledgeDocuments st' = knowledgeDocuments st"
    by simp
  then show ?thesis
    by (simp add: deserialize_serialize_conversations deserialize_serialize_documents)
qed

section \<open>Saving after a change\<close>

text \<open>
  After every event a collection that is not empty is in the store in full; a
  collection that is empty leaves its key as it was.
\<close>

lemma step_saves_non_empty:
  "(conversations (fst (step ev w)) \<noteq> [] \<longrightarrow>
      snd (step ev w) ''conversations'' =
        Some (serialize_conversations (conversations (fst (step ev w))))) \<and>
   (knowledgeDocuments (fst (step ev w)) \<noteq> [] \<longrightarrow>
      snd (step ev w) ''knowledgeDocuments'' =
        Some (serialize_documents (knowledgeDocuments (fst (step ev w)))))"
  by (simp add: step_def Let_def saveEffects_def saveConversations_def saveKnowledgeDocuments_def)

lemma step_keeps_store_of_empty:
  "(conversations (fst (step ev w)) = [] \<longrightarrow>
      snd (step ev w) ''conversations'' = snd w ''conversations'') \<and>
   (knowledgeDocuments (fst (step ev w)) = [] \<longrightarrow>
      snd (step ev w) ''knowledgeDocuments'' = snd w ''knowledgeDocuments'')"
  by (simp add: step_def Let_def saveEffects_def saveConversations_def saveKnowledgeDocuments_def)

lemma run_upload_then_delete:
  "run upload_then_delete (initial_state, Map.empty) =
     (initial_state, [''knowledgeDocuments'' \<mapsto> serialize_documents [doc_a]])"
  by (simp add: upload_then_delete_def run_def step_def Let_def handleAddDocument_def
      deleteDocument_def saveEffects_def saveConversations_def saveKnowledgeDocuments_def
      initial_state_def trim_def is_space_def doc_a_def newDoc_def)

text \<open>
  C1 at the deletion of the last document. The session uploads one document and
  deletes it. The document collection is then empty, but the store still holds the
  serialised one-document collection, which is not the serialised empty collection,
  and loading the store brings the deleted document back.
\<close>

theorem deleting_last_document_is_not_saved:
  "knowledgeDocuments (fst (run upload_then_delete (initial_state, Map.empty))) = [] \<and>
   snd (run upload_then_delete (initial_state, Map.empty)) ''knowledgeDocuments'' =
     Some (serialize_documents [doc_a]) \<and>
   serialize_documents [doc_a] \<noteq> serialize_documents [] \<and>
   (\<exists>st. loadEffect (snd (run upload_then_delete (initial_state, Map.empty))) = Inr st \<and>
      knowledgeDocuments st = [doc_a])"
proof -
  have diff: "serialize_documents [doc_a] \<noteq> serialize_documents []"
  proof
    assume "serialize_documents [doc_a] = serialize_documents []"
    then have "deserialize_documents (serialize_documents [doc_a]) =
        deserialize_documents (serialize_documents [])"
      by simp
    then show False by (simp only: deserialize_serialize_documents) simp
  qed
  have "\<exists>st. loadEffect [''knowledgeDocuments'' \<mapsto> serialize_documents [doc_a]] = Inr st \<and>
      knowledgeDocuments st = [doc_a]"
    using load_what_was_saved
      [of "[''knowledgeDocuments'' \<mapsto> serialize_documents [doc_a]]" "[]" "[doc_a]"]
    by simp
  with diff show ?thesis
    by (simp add: run_upload_then_delete) (simp add: initial_state_def)
qed

end
